theory Spec2Isabelle
  imports
    Main
    "HOL-Library.Word"
    "HOL-Library.Signed_Division"
begin

unbundle bit_operations_syntax

section \<open>Go values\<close>

text \<open>
  The package is modelled for a 64-bit platform: Go's \<open>uint\<close> and \<open>uint64\<close> are 64-bit
  words with wrap-around arithmetic, \<open>int\<close> and \<open>time.Duration\<close> are 64-bit two's
  complement values. A Go string is a sequence of bytes, which is what \<open>string\<close> is here.
\<close>

type_synonym uint = "64 word"
type_synonym uint64 = "64 word"

subsection \<open>Package strings\<close>

text \<open>
  \<open>splitWhen p s\<close> cuts \<open>s\<close> at every byte that satisfies \<open>p\<close>; the pieces between two
  cuts may be empty and there is always at least one piece.
\<close>

fun splitWhen :: "(char \<Rightarrow> bool) \<Rightarrow> string \<Rightarrow> string list" where
  "splitWhen p [] = [[]]"
| "splitWhen p (c # cs) =
     (if p c then [] # splitWhen p cs
      else (case splitWhen p cs of
              w # ws \<Rightarrow> (c # w) # ws
            | [] \<Rightarrow> [[c]]))"

text \<open>
  \<open>strings.Split(s, sep)\<close> for a separator of one byte, the only way the package calls it
  (\<open>"/"\<close> and \<open>"-"\<close>): all pieces, empty ones included.
\<close>

definition Split :: "string \<Rightarrow> char \<Rightarrow> string list" where
  "Split s sep = splitWhen (\<lambda>c. c = sep) s"

text \<open>
  \<open>strings.FieldsFunc(s, f)\<close> for a predicate that holds of ASCII bytes only (the package
  passes \<open>r == ','\<close>): the pieces between separators, empty ones dropped. A byte below 128
  is never part of a longer UTF-8 sequence, so cutting bytes is cutting runes.
\<close>

definition FieldsFunc :: "string \<Rightarrow> (char \<Rightarrow> bool) \<Rightarrow> string list" where
  "FieldsFunc s f = filter (\<lambda>w. w \<noteq> []) (splitWhen f s)"

text \<open>
  The UTF-8 encodings of the runes for which \<open>unicode.IsSpace\<close> holds: the six ASCII
  white-space bytes, U+0085, U+00A0, U+1680, U+2000 to U+200A, U+2028, U+2029, U+202F,
  U+205F and U+3000.
\<close>

definition spaceRunes :: "string list" where
  "spaceRunes =
     [[CHR 0x09], [CHR 0x0A], [CHR 0x0B], [CHR 0x0C], [CHR 0x0D], [CHR 0x20],
      [CHR 0xC2, CHR 0x85], [CHR 0xC2, CHR 0xA0], [CHR 0xE1, CHR 0x9A, CHR 0x80],
      [CHR 0xE2, CHR 0x80, CHR 0x80], [CHR 0xE2, CHR 0x80, CHR 0x81],
      [CHR 0xE2, CHR 0x80, CHR 0x82], [CHR 0xE2, CHR 0x80, CHR 0x83],
      [CHR 0xE2, CHR 0x80, CHR 0x84], [CHR 0xE2, CHR 0x80, CHR 0x85],
      [CHR 0xE2, CHR 0x80, CHR 0x86], [CHR 0xE2, CHR 0x80, CHR 0x87],
      [CHR 0xE2, CHR 0x80, CHR 0x88], [CHR 0xE2, CHR 0x80, CHR 0x89],
      [CHR 0xE2, CHR 0x80, CHR 0x8A],
      [CHR 0xE2, CHR 0x80, CHR 0xA8], [CHR 0xE2, CHR 0x80, CHR 0xA9], [CHR 0xE2, CHR 0x80, CHR 0xAF],
      [CHR 0xE2, CHR 0x81, CHR 0x9F], [CHR 0xE3, CHR 0x80, CHR 0x80]]"

text \<open>The width in bytes of the white-space rune that \<open>s\<close> starts with, 0 when there is none.\<close>

definition spaceWidth :: "string \<Rightarrow> nat" where
  "spaceWidth s =
     (case find (\<lambda>w. take (length w) s = w) spaceRunes of
        Some w \<Rightarrow> length w
      | None \<Rightarrow> 0)"

text \<open>
  \<open>strings.Fields(s)\<close>: the maximal runs of \<open>s\<close> free of white space. \<open>cur\<close> holds the
  bytes of the run being read, last byte first.
\<close>

function FieldsFrom :: "string \<Rightarrow> string \<Rightarrow> string list" where
  "FieldsFrom cur [] = (if cur = [] then [] else [rev cur])"
| "FieldsFrom cur (c # cs) =
     (if 0 < spaceWidth (c # cs)
      then (if cur = [] then [] else [rev cur]) @ FieldsFrom [] (drop (spaceWidth (c # cs)) (c # cs))
      else FieldsFrom (c # cur) cs)"
  by pat_completeness auto
termination
  by (relation "measure (\<lambda>(cur, s). length s)") auto

definition Fields :: "string \<Rightarrow> string list" where
  "Fields s = FieldsFrom [] s"

text \<open>\<open>strings.HasPrefix\<close>.\<close>

definition HasPrefix :: "string \<Rightarrow> string \<Rightarrow> bool" where
  "HasPrefix s pre = (length pre \<le> length s \<and> take (length pre) s = pre)"

text \<open>
  \<open>strings.ToLower\<close> on bytes. ASCII capitals are lowered; the two runes beyond ASCII whose
  lower case is an ASCII letter, U+0130 (to \<open>i\<close>) and U+212A (to \<open>k\<close>), are mapped to it;
  every other byte is kept. The result differs from Go's only where Go's result has a
  rune beyond ASCII, and there both differ from every key of a table of ASCII names.
\<close>

function ToLower :: "string \<Rightarrow> string" where
  "ToLower [] = []"
| "ToLower (c # cs) =
     (if 65 \<le> (of_char c :: nat) \<and> (of_char c :: nat) \<le> 90
        then char_of (of_char c + (32 :: nat)) # ToLower cs
      else if take 2 (c # cs) = [CHR 0xC4, CHR 0xB0]
        then CHR ''i'' # ToLower (drop 1 cs)
      else if take 3 (c # cs) = [CHR 0xE2, CHR 0x84, CHR 0xAA]
        then CHR ''k'' # ToLower (drop 2 cs)
      else c # ToLower cs)"
  by pat_completeness auto
termination
  by (relation "measure length") auto

subsection \<open>Package strconv\<close>

definition isDigit :: "char \<Rightarrow> bool" where
  "isDigit c = (48 \<le> (of_char c :: nat) \<and> (of_char c :: nat) \<le> 57)"

text \<open>The value of a run of decimal digits, read after the digits whose value is \<open>acc\<close>.\<close>

fun digitsVal :: "int \<Rightarrow> string \<Rightarrow> int" where
  "digitsVal acc [] = acc"
| "digitsVal acc (c # cs) = digitsVal (acc * 10 + (of_char c - 48)) cs"

text \<open>
  \<open>strconv.Atoi\<close>: an optional sign, then one or more decimal digits, of a value that fits
  an \<open>int\<close>. Go reports a syntax error or a range error otherwise; the package only tests
  the error against \<open>nil\<close>, so both are \<open>None\<close>.
\<close>

definition Atoi :: "string \<Rightarrow> int option" where
  "Atoi s =
     (let (neg, ds) =
            (case s of
               [] \<Rightarrow> (False, [])
             | c # cs \<Rightarrow>
                 if c = CHR ''-'' then (True, cs)
                 else if c = CHR ''+'' then (False, cs)
                 else (False, s))
      in if ds = [] \<or> \<not> list_all isDigit ds then None
         else (let v = (if neg then - digitsVal 0 ds else digitsVal 0 ds)
               in if - (2 ^ 63) \<le> v \<and> v < 2 ^ 63 then Some v else None))"

section \<open>Errors\<close>

text \<open>
  One constructor for each \<open>fmt.Errorf\<close> of the package, with the values its message
  prints. \<open>FailedParseInt\<close> and \<open>FailedParseDuration\<close> leave out the text of the library's
  own error.
\<close>

datatype error =
    EmptySpec
  | FieldCount nat nat "string list"
  | TooManyHyphens string
  | TooManySlashes string
  | BelowMinimum uint uint string
  | AboveMaximum uint uint string
  | BeyondEnd uint uint string
  | StepNotPositive string
  | FailedParseInt string
  | NegativeNumber int string
  | FailedParseDuration string
  | UnrecognizedDescriptor string

section \<open>The field compiler\<close>

text \<open>
  Modelled from the spec: the declaration of \<open>bounds\<close> is not among the sources. The record
  is \<open>{min, max, names}\<close> of section 3, with Go's \<open>nil\<close> map as \<open>None\<close>.
\<close>

record bounds =
  min' :: uint
  max' :: uint
  names :: "(string \<rightharpoonup> uint) option"

text \<open>
  Modelled from the spec: the declaration of \<open>starBit\<close> is not among the sources. It is the
  reserved wildcard-marker bit of section 3. The spec does not say which bit it is; it is
  taken as the top bit of the 64-bit mask, \<open>1 << 63\<close>, as in the cron library that the
  README names as the origin of this package. No value of the six bounds reaches it.
\<close>

definition starBit :: uint64 where
  "starBit = push_bit 63 1"

text \<open>\<open>mustParseInt\<close>: the pair Go returns, the value and the error (\<open>None\<close> for \<open>nil\<close>).\<close>

definition mustParseInt :: "string \<Rightarrow> uint \<times> error option" where
  "mustParseInt expr =
     (case Atoi expr of
        None \<Rightarrow> (0, Some (FailedParseInt expr))
      | Some num \<Rightarrow>
          if num < 0 then (0, Some (NegativeNumber num expr))
          else (word_of_int num, None))"

definition parseIntOrName :: "string \<Rightarrow> (string \<rightharpoonup> uint) option \<Rightarrow> uint \<times> error option" where
  "parseIntOrName expr nms =
     (case nms of
        None \<Rightarrow> mustParseInt expr
      | Some m \<Rightarrow>
          (case m (ToLower expr) of
             Some namedInt \<Rightarrow> (namedInt, None)
           | None \<Rightarrow> mustParseInt expr))"

text \<open>
  The loop of \<open>getBits\<close>: \<open>for i := min; i <= max; i += step { bits |= 1 << i }\<close>. The
  counter is a \<open>uint\<close>, so \<open>i += step\<close> wraps around and the loop need not end: \<open>None\<close> is
  the run that never returns. A shift by 64 or more gives 0, in Go as for \<open>push_bit\<close>.
\<close>

partial_function (option) getBits_loop :: "uint \<Rightarrow> uint \<Rightarrow> uint \<Rightarrow> uint64 \<Rightarrow> uint64 option" where
  "getBits_loop i mx step bits =
     (if i \<le> mx then getBits_loop (i + step) mx step (bits OR push_bit (unat i) 1)
      else Some bits)"

declare getBits_loop.simps [code]

definition getBits :: "uint \<Rightarrow> uint \<Rightarrow> uint \<Rightarrow> uint64 option" where
  "getBits mn mx step =
     (if step = 1
      then Some (NOT (push_bit (unat (mx + 1)) (- 1)) AND push_bit (unat mn) (- 1))
      else getBits_loop mn mx step 0)"

definition allBits :: "bounds \<Rightarrow> uint64 option" where
  "allBits r = map_option (\<lambda>bits. bits OR starBit) (getBits (min' r) (max' r) 1)"

text \<open>
  \<open>getRange\<close>, in the three parts of its body. Each part either leaves the function with
  \<open>return 0, err\<close> (\<open>Inl err\<close>) or hands its variables to the next part.

  The first part is the \<open>if\<close> on \<open>lowAndHigh[0]\<close>: it sets \<open>start\<close>, \<open>end\<close> and \<open>extra\<close>.
\<close>

definition getRange_ends :: "string list \<Rightarrow> string \<Rightarrow> bounds \<Rightarrow> error + (uint \<times> uint \<times> uint64)" where
  "getRange_ends lowAndHigh expr r =
     (if lowAndHigh ! 0 = ''*'' \<or> lowAndHigh ! 0 = ''?''
      then Inr (min' r, max' r, starBit)
      else (case parseIntOrName (lowAndHigh ! 0) (names r) of
              (_, Some err) \<Rightarrow> Inl err
            | (start, None) \<Rightarrow>
                if length lowAndHigh = 1 then Inr (start, start, 0)
                else if length lowAndHigh = 2 then
                  (case parseIntOrName (lowAndHigh ! 1) (names r) of
                     (_, Some err) \<Rightarrow> Inl err
                   | (end', None) \<Rightarrow> Inr (start, end', 0))
                else Inl (TooManyHyphens expr)))"

text \<open>
  The second part is the \<open>switch\<close> on \<open>len(rangeAndStep)\<close>: it sets \<open>step\<close> and may change
  \<open>end\<close> and \<open>extra\<close>.
\<close>

definition getRange_step ::
  "string list \<Rightarrow> bool \<Rightarrow> string \<Rightarrow> bounds \<Rightarrow> uint \<Rightarrow> uint64 \<Rightarrow> error + (uint \<times> uint \<times> uint64)"
where
  "getRange_step rangeAndStep singleDigit expr r end' extra =
     (if length rangeAndStep = 1 then Inr (1, end', extra)
      else if length rangeAndStep = 2 then
        (case mustParseInt (rangeAndStep ! 1) of
           (_, Some err) \<Rightarrow> Inl err
         | (step, None) \<Rightarrow>
             Inr (step,
                  if singleDigit then max' r else end',
                  if 1 < step then 0 else extra))
      else Inl (TooManySlashes expr))"

text \<open>
  \<open>getRange\<close>: the two splits, the two parts above, then the four checks and the call of
  \<open>getBits\<close>. The result is \<open>None\<close> when \<open>getBits\<close> does not return.
\<close>

definition getRange :: "string \<Rightarrow> bounds \<Rightarrow> (uint64 \<times> error option) option" where
  "getRange expr r =
     (let rangeAndStep = Split expr CHR ''/'';
          lowAndHigh = Split (rangeAndStep ! 0) CHR ''-'';
          singleDigit = (length lowAndHigh = 1)
      in
      case getRange_ends lowAndHigh expr r of
        Inl err \<Rightarrow> Some (0, Some err)
      | Inr (start, end0, extra0) \<Rightarrow>
          (case getRange_step rangeAndStep singleDigit expr r end0 extra0 of
             Inl err \<Rightarrow> Some (0, Some err)
           | Inr (step, end', extra) \<Rightarrow>
               if start < min' r then Some (0, Some (BelowMinimum start (min' r) expr))
               else if max' r < end' then Some (0, Some (AboveMaximum end' (max' r) expr))
               else if end' < start then Some (0, Some (BeyondEnd start end' expr))
               else if step = 0 then Some (0, Some (StepNotPositive expr))
               else map_option (\<lambda>bits. (bits OR extra, None)) (getBits start end' step)))"

text \<open>
  \<open>getField\<close>: the loop over the ranges, with the bits collected so far. On an error it
  returns them with the error, as the source does.
\<close>

fun getField_loop :: "string list \<Rightarrow> bounds \<Rightarrow> uint64 \<Rightarrow> (uint64 \<times> error option) option" where
  "getField_loop [] r bits = Some (bits, None)"
| "getField_loop (expr # ranges) r bits =
     (case getRange expr r of
        None \<Rightarrow> None
      | Some (bit', Some err) \<Rightarrow> Some (bits, Some err)
      | Some (bit', None) \<Rightarrow> getField_loop ranges r (bits OR bit'))"

definition getField :: "string \<Rightarrow> bounds \<Rightarrow> (uint64 \<times> error option) option" where
  "getField field r = getField_loop (FieldsFunc field (\<lambda>r. r = CHR '','')) r 0"

section \<open>Schedules\<close>

text \<open>
  Modelled from the spec: the declarations of \<open>specSchedule\<close> and of the interface
  \<open>Schedule\<close> are not among the sources. A spec-schedule is the six masks and the time
  zone of section 3; \<open>'loc\<close> stands for \<open>*time.Location\<close>, which the parser only stores.
  A \<open>Schedule\<close> is one of the two kinds of section 9.
\<close>

record 'loc specSchedule =
  second :: uint64
  minute :: uint64
  hour :: uint64
  dom :: uint64
  month :: uint64
  dow :: uint64
  location :: 'loc

text \<open>\<open>time.Duration\<close>: a count of nanoseconds in an \<open>int64\<close>, read with \<open>sint\<close>.\<close>

type_synonym Duration = "64 word"

record everySchedule =
  delay :: Duration

datatype 'loc Schedule =
    SpecSchedule "'loc specSchedule"
  | EverySchedule everySchedule

text \<open>
  Modelled from the spec: the six \<open>bounds\<close> values are not among the sources. Section 3
  gives them: second 0-59, minute 0-59, hour 0-23, day-of-month 1-31, month 1-12 with the
  names jan..dec, day-of-week 0-6 with the names sun..sat.
\<close>

definition seconds :: bounds where
  "seconds = \<lparr>min' = 0, max' = 59, names = None\<rparr>"

definition minutes :: bounds where
  "minutes = \<lparr>min' = 0, max' = 59, names = None\<rparr>"

definition hours :: bounds where
  "hours = \<lparr>min' = 0, max' = 23, names = None\<rparr>"

definition doms :: bounds where
  "doms = \<lparr>min' = 1, max' = 31, names = None\<rparr>"

definition months :: bounds where
  "months = \<lparr>min' = 1, max' = 12, names = Some (map_of
     [(''jan'', 1), (''feb'', 2), (''mar'', 3), (''apr'', 4), (''may'', 5), (''jun'', 6),
      (''jul'', 7), (''aug'', 8), (''sep'', 9), (''oct'', 10), (''nov'', 11), (''dec'', 12)])\<rparr>"

definition dows :: bounds where
  "dows = \<lparr>min' = 0, max' = 6, names = Some (map_of
     [(''sun'', 0), (''mon'', 1), (''tue'', 2), (''wed'', 3), (''thu'', 4), (''fri'', 5),
      (''sat'', 6)])\<rparr>"

subsection \<open>The interval schedule\<close>

definition Nanosecond :: Duration where
  "Nanosecond = 1"

definition Second :: Duration where
  "Second = 1000000000"

text \<open>Go's \<open>%\<close> on \<open>int64\<close>: the remainder of the division that truncates towards zero.\<close>

definition rem64 :: "Duration \<Rightarrow> Duration \<Rightarrow> Duration" where
  "rem64 a b = word_of_int (sint a smod sint b)"

text \<open>
  \<open>every\<close>. \<open>duration.Nanoseconds()\<close> is the duration as an \<open>int64\<close>, and \<open>%\<close> binds
  tighter than \<open>-\<close>.
\<close>

definition every :: "Duration \<Rightarrow> everySchedule" where
  "every duration =
     (let duration = (if duration <s Second then Second else duration)
      in \<lparr>delay = duration - rem64 duration Second\<rparr>)"

text \<open>
  An instant of \<open>time.Time\<close> is taken as its distance in nanoseconds from the zero of
  \<open>time.Time\<close>, the first of January of the year 1 at 00:00:00 UTC. A \<open>time.Time\<close> keeps
  the whole seconds of that distance in an \<open>int64\<close>, beside the nanoseconds below the
  second, 0..999999999: the instants it can hold are the \<open>representable\<close> ones. The
  reading of the monotonic clock that a \<open>time.Time\<close> may carry does not change the instant
  and is left out.
\<close>

type_synonym Time = int

definition representable :: "Time \<Rightarrow> bool" where
  "representable t = (- (2 ^ 63) \<le> t div 1000000000 \<and> t div 1000000000 < 2 ^ 63)"

text \<open>The seconds of a representable instant, as the \<open>int64\<close> that \<open>time.Time\<close> keeps.\<close>

definition Time_sec :: "Time \<Rightarrow> 64 word" where
  "Time_sec t = word_of_int (t div 1000000000)"

definition Time_Nanosecond :: "Time \<Rightarrow> int" where
  "Time_Nanosecond t = t mod 1000000000"

text \<open>
  \<open>addSec\<close> of package \<open>time\<close> adds seconds and stops at the ends of the range:
  \<^verbatim>\<open>sum := t.ext + d
  if (sum > t.ext) == (d > 0) { t.ext = sum }
  else if d > 0 { t.ext = 1<<63 - 1 } else { t.ext = -(1<<63 - 1) }\<close>
\<close>

definition addSec :: "64 word \<Rightarrow> 64 word \<Rightarrow> 64 word" where
  "addSec ext d =
     (let sum = ext + d
      in if (ext <s sum) = (0 <s d) then sum
         else if 0 <s d then 2 ^ 63 - 1
         else - (2 ^ 63 - 1))"

text \<open>
  \<open>t.Add(d)\<close> of package \<open>time\<close>:
  \<^verbatim>\<open>dsec := int64(d / 1e9)
  nsec := t.nsec() + int32(d%1e9)
  if nsec >= 1e9 { dsec++; nsec -= 1e9 } else if nsec < 0 { dsec--; nsec += 1e9 }
  t.addSec(dsec)\<close>
  Go's \<open>/\<close> and \<open>%\<close> truncate towards zero. The numbers of this computation stay far
  inside \<open>int64\<close> and \<open>int32\<close>, so they are integers here; only \<open>addSec\<close> can leave the
  range.
\<close>

definition Time_Add :: "Time \<Rightarrow> Duration \<Rightarrow> Time" where
  "Time_Add t d =
     (let dsec = sint d sdiv 1000000000;
          nsec = Time_Nanosecond t + sint d smod 1000000000;
          (dsec, nsec) =
            (if 1000000000 \<le> nsec then (dsec + 1, nsec - 1000000000)
             else if nsec < 0 then (dsec - 1, nsec + 1000000000)
             else (dsec, nsec))
      in sint (addSec (Time_sec t) (word_of_int dsec)) * 1000000000 + nsec)"

definition Next :: "everySchedule \<Rightarrow> Time \<Rightarrow> Time" where
  "Next s t = Time_Add t (delay s - word_of_int (Time_Nanosecond t) * Nanosecond)"

section \<open>The expression compiler\<close>

text \<open>
  \<open>parseDescriptor\<close>. \<open>time.ParseDuration\<close> belongs to Go's library; it is the parameter
  \<open>parseDuration\<close>, \<open>None\<close> where it returns an error. The result is the pair Go returns,
  inside \<open>option\<close> because \<open>allBits\<close> runs \<open>getBits\<close>.
\<close>

definition parseDescriptor ::
  "(string \<Rightarrow> Duration option) \<Rightarrow> string \<Rightarrow> 'loc \<Rightarrow> ('loc Schedule option \<times> error option) option"
where
  "parseDescriptor parseDuration descriptor loc =
     (if descriptor = ''@yearly'' \<or> descriptor = ''@annually'' then
        Option.bind (allBits dows) (\<lambda>dowBits.
        Some (Some (SpecSchedule
          \<lparr>second = push_bit (unat (min' seconds)) 1,
           minute = push_bit (unat (min' minutes)) 1,
           hour = push_bit (unat (min' hours)) 1,
           dom = push_bit (unat (min' doms)) 1,
           month = push_bit (unat (min' months)) 1,
           dow = dowBits,
           location = loc\<rparr>), None))
      else if descriptor = ''@monthly'' then
        Option.bind (allBits months) (\<lambda>monthBits.
        Option.bind (allBits dows) (\<lambda>dowBits.
        Some (Some (SpecSchedule
          \<lparr>second = push_bit (unat (min' seconds)) 1,
           minute = push_bit (unat (min' minutes)) 1,
           hour = push_bit (unat (min' hours)) 1,
           dom = push_bit (unat (min' doms)) 1,
           month = monthBits,
           dow = dowBits,
           location = loc\<rparr>), None)))
      else if descriptor = ''@weekly'' then
        Option.bind (allBits doms) (\<lambda>domBits.
        Option.bind (allBits months) (\<lambda>monthBits.
        Some (Some (SpecSchedule
          \<lparr>second = push_bit (unat (min' seconds)) 1,
           minute = push_bit (unat (min' minutes)) 1,
           hour = push_bit (unat (min' hours)) 1,
           dom = domBits,
           month = monthBits,
           dow = push_bit (unat (min' dows)) 1,
           location = loc\<rparr>), None)))
      else if descriptor = ''@daily'' \<or> descriptor = ''@midnight'' then
        Option.bind (allBits doms) (\<lambda>domBits.
        Option.bind (allBits months) (\<lambda>monthBits.
        Option.bind (allBits dows) (\<lambda>dowBits.
        Some (Some (SpecSchedule
          \<lparr>second = push_bit (unat (min' seconds)) 1,
           minute = push_bit (unat (min' minutes)) 1,
           hour = push_bit (unat (min' hours)) 1,
           dom = domBits,
           month = monthBits,
           dow = dowBits,
           location = loc\<rparr>), None))))
      else if descriptor = ''@hourly'' then
        Option.bind (allBits hours) (\<lambda>hourBits.
        Option.bind (allBits doms) (\<lambda>domBits.
        Option.bind (allBits months) (\<lambda>monthBits.
        Option.bind (allBits dows) (\<lambda>dowBits.
        Some (Some (SpecSchedule
          \<lparr>second = push_bit (unat (min' seconds)) 1,
           minute = push_bit (unat (min' minutes)) 1,
           hour = hourBits,
           dom = domBits,
           month = monthBits,
           dow = dowBits,
           location = loc\<rparr>), None)))))
      else if HasPrefix descriptor ''@every '' then
        (case parseDuration (drop (length ''@every '') descriptor) of
           None \<Rightarrow> Some (None, Some (FailedParseDuration descriptor))
         | Some duration \<Rightarrow> Some (Some (EverySchedule (every duration)), None))
      else Some (None, Some (UnrecognizedDescriptor descriptor)))"

text \<open>
  The closure \<open>field\<close> of \<open>ParseWithLocation\<close> reads and writes the variable \<open>err\<close> of the
  enclosing function: it takes the error so far and returns the bits with the error after
  the call.
\<close>

definition field :: "error option \<Rightarrow> string \<Rightarrow> bounds \<Rightarrow> (uint64 \<times> error option) option" where
  "field err fld r = (if err \<noteq> None then Some (0, err) else getField fld r)"

definition ParseWithLocation ::
  "(string \<Rightarrow> Duration option) \<Rightarrow> string \<Rightarrow> 'loc \<Rightarrow> ('loc Schedule option \<times> error option) option"
where
  "ParseWithLocation parseDuration spec loc =
     (if length spec = 0 then Some (None, Some EmptySpec)
      else if HasPrefix spec ''@'' then parseDescriptor parseDuration spec loc
      else
        (let fields = Fields spec in
         if length fields \<noteq> 6 then Some (None, Some (FieldCount 6 (length fields) fields))
         else
           Option.bind (field None (fields ! 0) seconds) (\<lambda>(second', err).
           Option.bind (field err (fields ! 1) minutes) (\<lambda>(minute', err).
           Option.bind (field err (fields ! 2) hours) (\<lambda>(hour', err).
           Option.bind (field err (fields ! 3) doms) (\<lambda>(dom', err).
           Option.bind (field err (fields ! 4) months) (\<lambda>(month', err).
           Option.bind (field err (fields ! 5) dows) (\<lambda>(dow', err).
             if err \<noteq> None then Some (None, err)
             else Some (Some (SpecSchedule
               \<lparr>second = second', minute = minute', hour = hour', dom = dom',
                month = month', dow = dow', location = loc\<rparr>), None)))))))))"

section \<open>The words of the specification\<close>

text \<open>
  Two masks in the words of section 4.3, written without \<open>getBits\<close>: the mask of a field
  that fires at the minimum of its bounds only, and the mask of an unconstrained field,
  the bits from the minimum to the maximum with the wildcard marker.
\<close>

definition single :: "bounds \<Rightarrow> uint64" where
  "single r = push_bit (unat (min' r)) 1"

definition unconstrained :: "bounds \<Rightarrow> uint64" where
  "unconstrained r =
     fold (\<lambda>i m. m OR push_bit i 1) [unat (min' r) ..< Suc (unat (max' r))] 0 OR starBit"

text \<open>
  The six bounds in the order of the fields, and the six masks of a spec-schedule in the
  same order.
\<close>

definition fieldBounds :: "bounds list" where
  "fieldBounds = [seconds, minutes, hours, doms, months, dows]"

definition masks :: "'loc specSchedule \<Rightarrow> uint64 list" where
  "masks s = [second s, minute s, hour s, dom s, month s, dow s]"

text \<open>
  The invariant of section 3 on one mask. The value bits are the bits 0 to 62, the bit 63
  being the wildcard marker: \<open>inBounds r m\<close> says that every value bit set in \<open>m\<close> is a
  value of the bounds \<open>r\<close>, \<open>hasValue m\<close> that some value bit is set.
\<close>

definition inBounds :: "bounds \<Rightarrow> uint64 \<Rightarrow> bool" where
  "inBounds r m = (\<forall>j<63. bit m j \<longrightarrow> unat (min' r) \<le> j \<and> j \<le> unat (max' r))"

definition hasValue :: "uint64 \<Rightarrow> bool" where
  "hasValue m = (\<exists>j<63. bit m j)"

text \<open>
  The instant at \<open>h:m:s\<close> and \<open>ns\<close> nanoseconds, read in UTC, on the day \<open>day\<close> after the
  first day of the year 1, where the instants of \<open>time.Time\<close> are counted from.
\<close>

definition atClock :: "int \<Rightarrow> int \<Rightarrow> int \<Rightarrow> int \<Rightarrow> int \<Rightarrow> Time" where
  "atClock day h m s ns = (((day * 24 + h) * 60 + m) * 60 + s) * 1000000000 + ns"

text \<open>
  Two stand-ins for \<open>time.ParseDuration\<close>, to run the parser on examples: one that reads
  the text \<open>5m\<close> as five minutes and nothing else, and one that reads nothing.
\<close>

definition parseOnly5m :: "string \<Rightarrow> Duration option" where
  "parseOnly5m s = (if s = ''5m'' then Some (300 * Second) else None)"

definition parseNothing :: "string \<Rightarrow> Duration option" where
  "parseNothing s = None"

section \<open>Error classes\<close>

lemma getRange_too_many_hyphens:
  "getRange ''5--5'' r = Some (0, Some (TooManyHyphens ''5--5''))"
  by (simp add: getRange_def getRange_ends_def getRange_step_def Split_def parseIntOrName_def mustParseInt_def Atoi_def isDigit_def
      split: option.splits)

lemma getRange_negative_step:
  "getRange ''*/-12'' r = Some (0, Some (NegativeNumber (- 12) ''-12''))"
  by (simp add: getRange_def getRange_ends_def getRange_step_def Split_def mustParseInt_def Atoi_def isDigit_def)

lemma getRange_too_many_slashes:
  "getRange ''*//2'' r = Some (0, Some (TooManySlashes ''*//2''))"
  by (simp add: getRange_def getRange_ends_def getRange_step_def Split_def)

lemma getRange_below_minimum:
  "getRange ''1'' \<lparr>min' = 3, max' = 5, names = None\<rparr> = Some (0, Some (BelowMinimum 1 3 ''1''))"
  by (simp add: getRange_def getRange_ends_def getRange_step_def Split_def parseIntOrName_def mustParseInt_def Atoi_def isDigit_def)

lemma getRange_above_maximum:
  "getRange ''6'' \<lparr>min' = 3, max' = 5, names = None\<rparr> = Some (0, Some (AboveMaximum 6 5 ''6''))"
  by (simp add: getRange_def getRange_ends_def getRange_step_def Split_def parseIntOrName_def mustParseInt_def Atoi_def isDigit_def)

lemma Parse_four_fields:
  "ParseWithLocation pd ''* * * *'' loc =
     Some (None, Some (FieldCount 6 4 [''*'', ''*'', ''*'', ''*'']))"
  by (simp add: ParseWithLocation_def HasPrefix_def Fields_def spaceWidth_def spaceRunes_def)

lemma Parse_empty: "ParseWithLocation pd [] loc = Some (None, Some EmptySpec)"
  by (simp add: ParseWithLocation_def)

lemma Parse_bogus:
  "ParseWithLocation pd ''@bogus'' loc = Some (None, Some (UnrecognizedDescriptor ''@bogus''))"
  by (simp add: ParseWithLocation_def HasPrefix_def parseDescriptor_def)

text \<open>
  C7. The compiler tells the error classes apart on the inputs of the spec: \<open>5--5\<close> is a
  too-many-hyphens error and \<open>*/-12\<close> a negative-number error, \<open>*//2\<close> a too-many-slashes
  error, all three whatever the bounds; against the bounds 3..5 (no names, as in the
  package's test) \<open>1\<close> is below the minimum and \<open>6\<close> above the maximum; the expression
  \<open>* * * *\<close> is a field-count error that carries 6, 4 and the four fields; the empty text is
  the empty-spec error and \<open>@bogus\<close> an unrecognized descriptor, whatever the duration
  parser and the time zone. Each time the other component of the result is Go's zero value.
\<close>

theorem error_classes:
  "getRange ''5--5'' r = Some (0, Some (TooManyHyphens ''5--5''))
   \<and> getRange ''*/-12'' r = Some (0, Some (NegativeNumber (- 12) ''-12''))
   \<and> getRange ''*//2'' r = Some (0, Some (TooManySlashes ''*//2''))
   \<and> getRange ''1'' \<lparr>min' = 3, max' = 5, names = None\<rparr>
       = Some (0, Some (BelowMinimum 1 3 ''1''))
   \<and> getRange ''6'' \<lparr>min' = 3, max' = 5, names = None\<rparr>
       = Some (0, Some (AboveMaximum 6 5 ''6''))
   \<and> ParseWithLocation pd ''* * * *'' loc
       = Some (None, Some (FieldCount 6 4 [''*'', ''*'', ''*'', ''*'']))
   \<and> ParseWithLocation pd [] loc = Some (None, Some EmptySpec)
   \<and> ParseWithLocation pd ''@bogus'' loc
       = Some (None, Some (UnrecognizedDescriptor ''@bogus''))"
  by (simp only: getRange_too_many_hyphens getRange_negative_step getRange_too_many_slashes
      getRange_below_minimum getRange_above_maximum Parse_four_fields Parse_empty Parse_bogus
      simp_thms)

section \<open>Properties of the interval schedule\<close>

lemma sint_Second: "sint Second = 1000000000"
  by (simp add: Second_def)

lemma signed_take_bit_63_id:
  "- (2 ^ 63) \<le> k \<Longrightarrow> k < 2 ^ 63 \<Longrightarrow> signed_take_bit 63 k = (k::int)"
  by (simp add: signed_take_bit_int_eq_self)

lemma sint_range64: "- (2 ^ 63) \<le> sint (w :: 64 word) \<and> sint w < 2 ^ 63"
  using sint_ge [of w] sint_lt [of w] by simp

lemma sint_word_of_int64:
  "- (2 ^ 63) \<le> k \<Longrightarrow> k < 2 ^ 63 \<Longrightarrow> sint (word_of_int k :: 64 word) = k"
  by (simp add: sint_sbintrunc' signed_take_bit_63_id)

lemma sint_minus64:
  "- (2 ^ 63) \<le> sint a - sint b \<Longrightarrow> sint a - sint b < 2 ^ 63 \<Longrightarrow>
   sint (a - b :: 64 word) = sint a - sint b"
  by (simp add: sint_word_ariths signed_take_bit_63_id)

text \<open>The delay that \<open>every\<close> stores, as an integer count of nanoseconds.\<close>

lemma every_delay:
  "sint (delay (every d)) = (max (sint d) 1000000000 div 1000000000) * 1000000000"
proof -
  define c :: "64 word" where "c = (if d <s Second then Second else d)"
  have c_sint: "sint c = max (sint d) 1000000000"
    by (simp add: c_def word_sless_alt sint_Second max_def)
  have lo: "1000000000 \<le> sint c" by (simp add: c_sint)
  have hi: "sint c < 2 ^ 63" using sint_range64 [of c] by simp
  have m: "sint c smod sint Second = sint c mod 1000000000"
    using lo by (simp add: signed_modulo_int_def sint_Second)
  have r: "sint (rem64 c Second) = sint c mod 1000000000"
  proof -
    have "0 \<le> sint c mod 1000000000" "sint c mod 1000000000 < 1000000000" by simp_all
    then show ?thesis
      unfolding rem64_def m by (intro sint_word_of_int64) simp_all
  qed
  have "0 \<le> sint c mod 1000000000" "sint c mod 1000000000 \<le> sint c"
    using lo by (simp_all add: zmod_le_nonneg_dividend)
  with hi have "sint (c - rem64 c Second) = sint c - sint c mod 1000000000"
    by (intro sint_minus64 [THEN trans]) (simp_all add: r)
  also have "\<dots> = (sint c div 1000000000) * 1000000000"
    by (simp add: minus_mod_eq_div_mult)
  finally show ?thesis
    by (simp add: every_def c_def [symmetric] Let_def c_sint)
qed

lemma every_delay_ge: "1000000000 \<le> sint (delay (every d))"
proof -
  have "1 \<le> max (sint d) 1000000000 div 1000000000"
    by (simp add: pos_imp_zdiv_pos_iff)
  then show ?thesis
    unfolding every_delay by simp
qed

lemma every_delay_1500ms: "delay (every 1500000000) = Second"
  by (simp add: every_def Second_def rem64_def word_sless_alt signed_modulo_int_def)

text \<open>
  C8. For every requested duration \<open>d\<close> (any \<open>int64\<close>), the delay stored by \<open>every\<close> is
  \<open>d\<close> raised to one second when it is smaller, then cut down to a whole number of
  seconds. So the delay is a multiple of one second, and at least one second; a request of
  1500 ms is stored as exactly one second.
\<close>

theorem every_clamps_then_truncates:
  "sint (delay (every d)) = (max (sint d) 1000000000 div 1000000000) * 1000000000
   \<and> sint Second = 1000000000
   \<and> sint Second dvd sint (delay (every d))
   \<and> sint Second \<le> sint (delay (every d))
   \<and> delay (every 1500000000) = Second"
  using every_delay_ge [of d]
  by (simp add: every_delay sint_Second every_delay_1500ms)

text \<open>Adding seconds where the sum fits: no saturation.\<close>

lemma addSec_in_range:
  assumes "- (2 ^ 63) \<le> sint a + sint b" and "sint a + sint b < 2 ^ 63"
  shows "sint (addSec a b) = sint a + sint b"
proof -
  have s: "sint (a + b) = sint a + sint b"
    using assms by (simp add: sint_word_ariths signed_take_bit_63_id)
  have "(a <s a + b) = (0 <s b)"
    by (simp add: word_sless_alt s)
  then show ?thesis
    by (simp add: addSec_def Let_def s)
qed

lemma representable_between:
  assumes "representable a" and "representable c" and "a \<le> b" and "b \<le> c"
  shows "representable b"
proof -
  have "a div 1000000000 \<le> b div 1000000000" "b div 1000000000 \<le> c div 1000000000"
    using assms(3,4) by (simp_all add: zdiv_mono1)
  with assms(1,2) show ?thesis
    unfolding representable_def by linarith
qed

text \<open>
  \<open>t.Add(d)\<close> is the instant \<open>d\<close> after \<open>t\<close>, for a duration that is not negative, when
  that instant is representable.
\<close>

lemma Time_Add_in_range:
  assumes "representable t" and "0 \<le> sint d" and "representable (t + sint d)"
  shows "Time_Add t d = t + sint d"
proof -
  define x where "x = sint d"
  define q r s n where "q = x div 1000000000" and "r = x mod 1000000000"
    and "s = t div 1000000000" and "n = t mod 1000000000"
  have x: "x = q * 1000000000 + r" and t: "t = s * 1000000000 + n"
    by (simp_all add: q_def r_def s_def n_def)
  have rn: "0 \<le> r" "r < 1000000000" "0 \<le> n" "n < 1000000000"
    by (simp_all add: r_def n_def)
  have q0: "0 \<le> q"
    using assms(2) by (simp add: q_def x_def pos_imp_zdiv_nonneg_iff)
  have sd: "x sdiv 1000000000 = q" "x smod 1000000000 = r"
    using assms(2)
    by (simp_all add: signed_divide_int_def signed_modulo_int_def q_def r_def x_def sgn_if)
  define c :: int where "c = (if 1000000000 \<le> n + r then 1 else 0)"
  have sum_div: "(t + x) div 1000000000 = s + q + c"
  proof -
    have "t + x = (s + q + c) * 1000000000 + (n + r - c * 1000000000)"
      using t x by (simp add: algebra_simps)
    moreover have "0 \<le> n + r - c * 1000000000" "n + r - c * 1000000000 < 1000000000"
      using rn by (simp_all add: c_def)
    ultimately show ?thesis
      by (metis div_pos_pos_trivial add.right_neutral div_mult_self3 zero_neq_numeral)
  qed
  have qb: "q < 9223372037"
  proof -
    have "x < 2 ^ 63" using sint_range64 [of d] by (simp add: x_def)
    with x rn(1) show ?thesis by simp
  qed
  have w: "sint (word_of_int (q + c) :: 64 word) = q + c"
    using q0 qb by (intro sint_word_of_int64) (simp_all add: c_def)
  have ws: "sint (Time_sec t) = s"
    using assms(1) unfolding Time_sec_def representable_def s_def
    by (intro sint_word_of_int64) simp_all
  have lo: "- (2 ^ 63) \<le> s + (q + c)"
    using assms(1) q0 unfolding representable_def s_def by (simp add: c_def)
  have hi: "s + (q + c) < 2 ^ 63"
    using assms(3) sum_div unfolding representable_def x_def by simp
  have a: "sint (addSec (Time_sec t) (word_of_int (q + c))) = s + (q + c)"
  proof -
    have "sint (addSec (Time_sec t) (word_of_int (q + c)))
        = sint (Time_sec t) + sint (word_of_int (q + c) :: 64 word)"
      by (rule addSec_in_range) (use lo hi in \<open>simp_all only: ws w\<close>)
    then show ?thesis by (simp only: ws w)
  qed
  have "Time_Add t d = (s + (q + c)) * 1000000000 + (n + r - c * 1000000000)"
  proof (cases "1000000000 \<le> n + r")
    case True
    with a have "sint (addSec (Time_sec t) (word_of_int q + 1)) = s + q + 1"
      by (simp add: c_def)
    with True show ?thesis
      by (simp add: Time_Add_def Time_Nanosecond_def Let_def x_def [symmetric] sd
          n_def [symmetric] c_def)
  next
    case False
    with a have "sint (addSec (Time_sec t) (word_of_int q)) = s + q"
      by (simp add: c_def)
    with False rn show ?thesis
      by (simp add: Time_Add_def Time_Nanosecond_def Let_def x_def [symmetric] sd
          n_def [symmetric] c_def)
  qed
  also have "\<dots> = t + x"
    using t x by (simp add: algebra_simps)
  finally show ?thesis by (simp add: x_def)
qed

text \<open>
  What \<open>Next\<close> returns, for a schedule built by \<open>every\<close>, when the instant one delay after
  the second of \<open>t\<close> is representable.
\<close>

lemma Next_every:
  assumes "representable t"
    and "representable (t + sint (delay (every d)) - t mod 1000000000)"
  shows "Next (every d) t = t + sint (delay (every d)) - t mod 1000000000"
proof -
  have n: "0 \<le> t mod 1000000000" "t mod 1000000000 < 1000000000" by simp_all
  then have w: "sint (word_of_int (t mod 1000000000) :: 64 word) = t mod 1000000000"
    by (intro sint_word_of_int64) simp_all
  have d: "sint (delay (every d) - word_of_int (t mod 1000000000))
      = sint (delay (every d)) - t mod 1000000000"
    using n every_delay_ge [of d] sint_range64 [of "delay (every d)"]
    by (intro sint_minus64 [THEN trans]) (simp_all add: w)
  have "Time_Add t (delay (every d) - word_of_int (t mod 1000000000))
      = t + sint (delay (every d) - word_of_int (t mod 1000000000))"
    using assms n every_delay_ge [of d]
    by (intro Time_Add_in_range) (simp_all add: d algebra_simps)
  then show ?thesis
    by (simp add: Next_def Time_Nanosecond_def Nanosecond_def d)
qed

lemma Next_every_later:
  assumes "representable t"
    and "representable (t + sint (delay (every d)) - t mod 1000000000)"
  shows "t < Next (every d) t"
proof -
  have "t mod 1000000000 < 1000000000" by simp
  with every_delay_ge [of d] show ?thesis
    unfolding Next_every [OF assms] by linarith
qed

lemma whole_second_after:
  "(t + sint (delay (every d)) - t mod 1000000000) mod 1000000000 = 0"
proof -
  have "(1000000000::int) dvd (t - t mod 1000000000)"
    by (simp add: minus_mod_eq_div_mult)
  moreover have "(1000000000::int) dvd sint (delay (every d))"
    unfolding every_delay by simp
  ultimately have "(1000000000::int) dvd (t - t mod 1000000000) + sint (delay (every d))"
    by (rule dvd_add)
  then show ?thesis
    by (simp add: algebra_simps mod_eq_0_iff_dvd)
qed

lemma Next_every_whole_second:
  assumes "representable t"
    and "representable (t + sint (delay (every d)) - t mod 1000000000)"
  shows "Time_Nanosecond (Next (every d) t) = 0"
  unfolding Next_every [OF assms] Time_Nanosecond_def by (rule whole_second_after)

text \<open>
  C9, as the code has it. For every interval schedule \<open>S = every d\<close> and every instant \<open>t\<close>
  such that \<open>t\<close> plus the stored delay minus the nanoseconds of \<open>t\<close> below the second is an
  instant that \<open>time.Time\<close> can hold, \<open>S.Next(t)\<close> is that instant; it is on a whole second
  and strictly later than \<open>t\<close>. So with \<open>t1 = S.Next(t0)\<close>, \<open>S.Next(t1)\<close> is strictly later
  than \<open>t1\<close>, when the instant two delays after the second of \<open>t0\<close> is one that \<open>time.Time\<close>
  can hold. At the end of the range \<open>Add\<close> stops at the last second.
\<close>

theorem Next_every_spec:
  assumes "representable t"
    and "representable (t + sint (delay (every d)) - Time_Nanosecond t)"
    and "representable t0"
    and "representable (t0 + 2 * sint (delay (every d)) - Time_Nanosecond t0)"
  shows "Next (every d) t = t + sint (delay (every d)) - Time_Nanosecond t
       \<and> Time_Nanosecond (Next (every d) t) = 0
       \<and> t < Next (every d) t
       \<and> Next (every d) t0 < Next (every d) (Next (every d) t0)"
proof (intro conjI)
  note r = assms(2) [unfolded Time_Nanosecond_def]
  show "Next (every d) t = t + sint (delay (every d)) - Time_Nanosecond t"
    by (simp add: Next_every [OF assms(1) r] Time_Nanosecond_def)
  show "Time_Nanosecond (Next (every d) t) = 0"
    using assms(1) r by (rule Next_every_whole_second)
  show "t < Next (every d) t"
    using assms(1) r by (rule Next_every_later)
  define D where "D = sint (delay (every d))"
  define t1 where "t1 = t0 + D - t0 mod 1000000000"
  have D: "1000000000 \<le> D"
    unfolding D_def by (rule every_delay_ge)
  have far: "representable (t1 + D)"
    using assms(4) by (simp add: t1_def D_def Time_Nanosecond_def algebra_simps)
  have n: "0 \<le> t0 mod 1000000000" "t0 mod 1000000000 < 1000000000" by simp_all
  have r1: "representable t1"
    by (rule representable_between [OF assms(3) far]) (use n D in \<open>simp_all add: t1_def\<close>)
  have first: "Next (every d) t0 = t1"
    using assms(3) r1 unfolding t1_def D_def by (rule Next_every)
  have whole: "t1 mod 1000000000 = 0"
    unfolding t1_def D_def by (rule whole_second_after)
  have "representable (t1 + sint (delay (every d)) - t1 mod 1000000000)"
    using far by (simp add: whole D_def)
  with r1 have "t1 < Next (every d) t1"
    by (rule Next_every_later)
  then show "Next (every d) t0 < Next (every d) (Next (every d) t0)"
    by (simp add: first)
qed

theorem Next_every_spec_witness:
  "Next (every Second) 1500000000
     = 1500000000 + sint (delay (every Second)) - Time_Nanosecond 1500000000
   \<and> Time_Nanosecond (Next (every Second) 1500000000) = 0
   \<and> 1500000000 < Next (every Second) 1500000000
   \<and> Next (every Second) 1500000000 < Next (every Second) (Next (every Second) 1500000000)"
proof -
  have d: "sint (delay (every Second)) = 1000000000"
    by (simp add: every_delay sint_Second)
  show ?thesis
    by (rule Next_every_spec [of 1500000000 Second 1500000000])
      (simp_all add: d representable_def Time_Nanosecond_def)
qed

text \<open>
  The last second that \<open>time.Time\<close> can hold, with 999999999 nanoseconds: \<open>Next\<close> of the
  schedule of one second returns the start of that second, which is before the instant.
\<close>

theorem Next_every_spec_counterexample:
  "representable (9223372036854775807 * 1000000000 + 999999999)
   \<and> Next (every Second) (9223372036854775807 * 1000000000 + 999999999)
       = 9223372036854775807 * 1000000000
   \<and> \<not> 9223372036854775807 * 1000000000 + 999999999
       < Next (every Second) (9223372036854775807 * 1000000000 + 999999999)"
proof -
  have d: "delay (every Second) = 1000000000"
    by (simp add: every_def Second_def rem64_def word_sless_alt signed_modulo_int_def)
  have n: "Next (every Second) (9223372036854775807 * 1000000000 + 999999999)
      = 9223372036854775807 * 1000000000"
    by (simp add: Next_def d Time_Add_def Time_Nanosecond_def Time_sec_def Nanosecond_def
        addSec_def Let_def word_sless_alt signed_divide_int_def signed_modulo_int_def)
  show ?thesis
    unfolding n by (simp add: representable_def)
qed

section \<open>The bits that \<open>getBits\<close> sets\<close>

lemma bit_getBits_shifts:
  fixes mn mx :: uint
  assumes "mx \<noteq> - 1"
  shows "bit (NOT (push_bit (unat (mx + 1)) (- 1)) AND push_bit (unat mn) (- 1) :: uint64) j
         \<longleftrightarrow> j < 64 \<and> unat mn \<le> j \<and> j \<le> unat mx"
proof -
  have "1 + mx \<noteq> 0"
    using assms by (metis add.commute max_word_wrap)
  then have "unat (mx + 1) = Suc (unat mx)"
    by (simp add: unatSuc add.commute)
  then show ?thesis
    by (auto simp add: bit_simps)
qed

lemma step_progression:
  fixes a s j :: nat
  assumes "0 < s"
  shows "(a \<le> j \<and> s dvd (j - a)) \<longleftrightarrow> (j = a \<or> (a + s \<le> j \<and> s dvd (j - (a + s))))"
proof (cases "j = a")
  case True
  then show ?thesis by simp
next
  case False
  show ?thesis
  proof
    assume l: "a \<le> j \<and> s dvd (j - a)"
    then obtain k where k: "j - a = s * k" by (auto simp add: dvd_def)
    with False l have "k \<noteq> 0" by (cases k) auto
    then obtain k' where k': "k = Suc k'" by (cases k) auto
    from k k' l have "j = a + s + s * k'" by simp
    then show "j = a \<or> (a + s \<le> j \<and> s dvd (j - (a + s)))" by simp
  next
    assume "j = a \<or> (a + s \<le> j \<and> s dvd (j - (a + s)))"
    with False have r: "a + s \<le> j" "s dvd (j - (a + s))" by simp_all
    then obtain k where "j - (a + s) = s * k" by (auto simp add: dvd_def)
    with r have "j - a = s * Suc k" by simp
    with r show "a \<le> j \<and> s dvd (j - a)" by (simp del: mult_Suc_right)
  qed
qed

lemma getBits_loop_bits:
  fixes i mx step :: uint and bits :: uint64
  assumes "step \<noteq> 0" and "unat mx + unat step < 2 ^ 64"
  shows "\<exists>m. getBits_loop i mx step bits = Some m \<and>
           (\<forall>j. bit m j \<longleftrightarrow>
              bit bits j \<or> (j < 64 \<and> unat i \<le> j \<and> j \<le> unat mx \<and> unat step dvd (j - unat i)))"
  using assms
proof (induction "Suc (unat mx) - unat i" arbitrary: i bits rule: less_induct)
  case less
  have s: "0 < unat step" using less.prems(1) by (simp add: unat_gt_0)
  show ?case
  proof (cases "i \<le> mx")
    case False
    then have "unat mx < unat i" by (simp add: word_le_nat_alt)
    then show ?thesis
      using False by (subst getBits_loop.simps) auto
  next
    case True
    then have le: "unat i \<le> unat mx" by (simp add: word_le_nat_alt)
    with less.prems(2) have "unat i + unat step < 2 ^ 64" by simp
    then have u: "unat (i + step) = unat i + unat step"
      by (simp add: unat_add_lem [THEN iffD1])
    with s le have "Suc (unat mx) - unat (i + step) < Suc (unat mx) - unat i" by simp
    from less.hyps [OF this less.prems]
    obtain m where m: "getBits_loop (i + step) mx step (bits OR push_bit (unat i) 1) = Some m"
      and b: "\<And>j. bit m j \<longleftrightarrow>
          bit (bits OR push_bit (unat i) 1) j \<or>
          (j < 64 \<and> unat (i + step) \<le> j \<and> j \<le> unat mx \<and> unat step dvd (j - unat (i + step)))"
      by blast
    have "getBits_loop i mx step bits = Some m"
      using True m by (subst getBits_loop.simps) simp
    moreover have "bit m j \<longleftrightarrow>
        bit bits j \<or> (j < 64 \<and> unat i \<le> j \<and> j \<le> unat mx \<and> unat step dvd (j - unat i))" for j
    proof -
      have p: "bit (push_bit (unat i) 1 :: uint64) j \<longleftrightarrow> j < 64 \<and> j = unat i"
        by (auto simp add: bit_simps)
      show ?thesis
        unfolding b u bit_or_iff p
        using step_progression [OF s, of "unat i" j] le by auto
    qed
    ultimately show ?thesis by blast
  qed
qed

text \<open>
  \<open>getBits\<close> returns, with exactly the bits \<open>min, min + step, ...\<close> up to \<open>max\<close> (those
  below 64), whenever the step is not 0 and the last \<open>i += step\<close> cannot wrap around.
\<close>

lemma getBits_bits:
  fixes mn mx step :: uint
  assumes "step \<noteq> 0" and "unat mx + unat step < 2 ^ 64"
  shows "\<exists>m. getBits mn mx step = Some m \<and>
           (\<forall>j. bit m j \<longleftrightarrow>
              j < 64 \<and> unat mn \<le> j \<and> j \<le> unat mx \<and> unat step dvd (j - unat mn))"
proof (cases "step = 1")
  case True
  have "mx \<noteq> - 1"
  proof
    assume "mx = - 1"
    then have "unat mx = 2 ^ 64 - 1"
      by (simp add: unsigned_minus_1_eq_mask mask_eq_exp_minus_1)
    with assms(2) True show False by simp
  qed
  then have b: "bit (NOT (push_bit (unat (mx + 1)) (- 1)) AND push_bit (unat mn) (- 1) :: uint64) j
      \<longleftrightarrow> j < 64 \<and> unat mn \<le> j \<and> j \<le> unat mx" for j
    by (rule bit_getBits_shifts)
  show ?thesis
  proof (intro exI conjI allI)
    show "getBits mn mx step
        = Some (NOT (push_bit (unat (mx + 1)) (- 1)) AND push_bit (unat mn) (- 1))"
      using True by (simp only: getBits_def refl if_True)
    show "bit (NOT (push_bit (unat (mx + 1)) (- 1)) AND push_bit (unat mn) (- 1) :: uint64) j
        \<longleftrightarrow> j < 64 \<and> unat mn \<le> j \<and> j \<le> unat mx \<and> unat step dvd (j - unat mn)" for j
      unfolding b True by simp
  qed
next
  case False
  then show ?thesis
    using getBits_loop_bits [OF assms, of mn 0] by (simp add: getBits_def)
qed

lemma bit_fold_set_bits:
  "bit (fold (\<lambda>i m. m OR push_bit i 1) xs (m0 :: uint64)) j
     \<longleftrightarrow> bit m0 j \<or> (j < 64 \<and> j \<in> set xs)"
  by (induction xs arbitrary: m0) (auto simp add: bit_simps)

lemma allBits_unconstrained:
  assumes "max' r \<noteq> - 1"
  shows "allBits r = Some (unconstrained r)"
proof -
  have "NOT (push_bit (unat (max' r + 1)) (- 1)) AND push_bit (unat (min' r)) (- 1)
        = fold (\<lambda>i m. m OR push_bit i 1) [unat (min' r) ..< Suc (unat (max' r))] (0 :: uint64)"
  proof (rule bit_eqI)
    fix j
    show "bit (NOT (push_bit (unat (max' r + 1)) (- 1)) AND push_bit (unat (min' r)) (- 1) :: uint64) j
        \<longleftrightarrow> bit (fold (\<lambda>i m. m OR push_bit i 1)
              [unat (min' r) ..< Suc (unat (max' r))] (0 :: uint64)) j"
      unfolding bit_getBits_shifts [OF assms] bit_fold_set_bits by auto
  qed
  then show ?thesis
    by (simp add: allBits_def getBits_def unconstrained_def)
qed

section \<open>Descriptors\<close>

lemma allBits_registry:
  "allBits seconds = Some (unconstrained seconds)"
  "allBits minutes = Some (unconstrained minutes)"
  "allBits hours = Some (unconstrained hours)"
  "allBits doms = Some (unconstrained doms)"
  "allBits months = Some (unconstrained months)"
  "allBits dows = Some (unconstrained dows)"
  by (simp_all add: allBits_unconstrained seconds_def minutes_def hours_def doms_def
      months_def dows_def)

lemma parseDescriptor_yearly:
  "parseDescriptor pd ''@yearly'' loc = Some (Some (SpecSchedule
     \<lparr>second = single seconds, minute = single minutes, hour = single hours,
      dom = single doms, month = single months, dow = unconstrained dows,
      location = loc\<rparr>), None)"
  by (simp add: parseDescriptor_def allBits_registry single_def)

lemma parseDescriptor_annually:
  "parseDescriptor pd ''@annually'' loc = Some (Some (SpecSchedule
     \<lparr>second = single seconds, minute = single minutes, hour = single hours,
      dom = single doms, month = single months, dow = unconstrained dows,
      location = loc\<rparr>), None)"
  by (simp add: parseDescriptor_def allBits_registry single_def)

lemma parseDescriptor_monthly:
  "parseDescriptor pd ''@monthly'' loc = Some (Some (SpecSchedule
     \<lparr>second = single seconds, minute = single minutes, hour = single hours,
      dom = single doms, month = unconstrained months, dow = unconstrained dows,
      location = loc\<rparr>), None)"
  by (simp add: parseDescriptor_def allBits_registry single_def)

lemma parseDescriptor_weekly:
  "parseDescriptor pd ''@weekly'' loc = Some (Some (SpecSchedule
     \<lparr>second = single seconds, minute = single minutes, hour = single hours,
      dom = unconstrained doms, month = unconstrained months, dow = single dows,
      location = loc\<rparr>), None)"
  by (simp add: parseDescriptor_def allBits_registry single_def)

lemma parseDescriptor_daily:
  "parseDescriptor pd ''@daily'' loc = Some (Some (SpecSchedule
     \<lparr>second = single seconds, minute = single minutes, hour = single hours,
      dom = unconstrained doms, month = unconstrained months, dow = unconstrained dows,
      location = loc\<rparr>), None)"
  by (simp add: parseDescriptor_def allBits_registry single_def)

lemma parseDescriptor_midnight:
  "parseDescriptor pd ''@midnight'' loc = Some (Some (SpecSchedule
     \<lparr>second = single seconds, minute = single minutes, hour = single hours,
      dom = unconstrained doms, month = unconstrained months, dow = unconstrained dows,
      location = loc\<rparr>), None)"
  by (simp add: parseDescriptor_def allBits_registry single_def)

lemma parseDescriptor_hourly:
  "parseDescriptor pd ''@hourly'' loc = Some (Some (SpecSchedule
     \<lparr>second = single seconds, minute = single minutes, hour = unconstrained hours,
      dom = unconstrained doms, month = unconstrained months, dow = unconstrained dows,
      location = loc\<rparr>), None)"
  by (simp add: parseDescriptor_def allBits_registry single_def)

lemma every_text_not_literal:
  "''@every '' @ dtext \<notin> {''@yearly'', ''@annually'', ''@monthly'', ''@weekly'', ''@daily'',
     ''@midnight'', ''@hourly''}"
  by auto

lemma parseDescriptor_every:
  "parseDescriptor pd (''@every '' @ dtext) loc =
     (case pd dtext of
        Some d \<Rightarrow> Some (Some (EverySchedule (every d)), None)
      | None \<Rightarrow> Some (None, Some (FailedParseDuration (''@every '' @ dtext))))"
  using every_text_not_literal [of dtext]
  by (simp add: parseDescriptor_def HasPrefix_def split: option.splits)

lemma parseDescriptor_other:
  "descriptor \<notin> {''@yearly'', ''@annually'', ''@monthly'', ''@weekly'', ''@daily'',
     ''@midnight'', ''@hourly''} \<Longrightarrow> \<not> HasPrefix descriptor ''@every '' \<Longrightarrow>
   parseDescriptor pd descriptor loc = Some (None, Some (UnrecognizedDescriptor descriptor))"
  by (simp add: parseDescriptor_def)

text \<open>
  C5. Descriptor resolution maps each recognized literal as specified. \<open>@yearly\<close> and
  \<open>@annually\<close> give a spec-schedule with the single bit at the minimum of second, minute,
  hour, day-of-month and month, and an unconstrained day-of-week (all its values and the
  wildcard marker); \<open>@monthly\<close> leaves month unconstrained as well; \<open>@weekly\<close> leaves
  day-of-month and month unconstrained and has day-of-week at its minimum; \<open>@daily\<close> and
  \<open>@midnight\<close> leave day-of-month, month and day-of-week unconstrained; \<open>@hourly\<close> leaves
  hour unconstrained too. \<open>@every\<close> followed by a space and a duration text gives the
  interval schedule \<open>every d\<close> of the duration \<open>d\<close> that the text parses to, and the
  failed-to-parse-duration error when it does not parse. Any other text is an
  unrecognized-descriptor error.
\<close>

theorem descriptor_resolution:
  "parseDescriptor pd ''@yearly'' loc = Some (Some (SpecSchedule
     \<lparr>second = single seconds, minute = single minutes, hour = single hours,
      dom = single doms, month = single months, dow = unconstrained dows,
      location = loc\<rparr>), None)
   \<and> parseDescriptor pd ''@annually'' loc = parseDescriptor pd ''@yearly'' loc
   \<and> parseDescriptor pd ''@monthly'' loc = Some (Some (SpecSchedule
     \<lparr>second = single seconds, minute = single minutes, hour = single hours,
      dom = single doms, month = unconstrained months, dow = unconstrained dows,
      location = loc\<rparr>), None)
   \<and> parseDescriptor pd ''@weekly'' loc = Some (Some (SpecSchedule
     \<lparr>second = single seconds, minute = single minutes, hour = single hours,
      dom = unconstrained doms, month = unconstrained months, dow = single dows,
      location = loc\<rparr>), None)
   \<and> parseDescriptor pd ''@daily'' loc = Some (Some (SpecSchedule
     \<lparr>second = single seconds, minute = single minutes, hour = single hours,
      dom = unconstrained doms, month = unconstrained months, dow = unconstrained dows,
      location = loc\<rparr>), None)
   \<and> parseDescriptor pd ''@midnight'' loc = parseDescriptor pd ''@daily'' loc
   \<and> parseDescriptor pd ''@hourly'' loc = Some (Some (SpecSchedule
     \<lparr>second = single seconds, minute = single minutes, hour = unconstrained hours,
      dom = unconstrained doms, month = unconstrained months, dow = unconstrained dows,
      location = loc\<rparr>), None)
   \<and> (\<forall>d. pd dtext = Some d \<longrightarrow>
         parseDescriptor pd (''@every '' @ dtext) loc
           = Some (Some (EverySchedule (every d)), None))
   \<and> (pd dtext = None \<longrightarrow>
         parseDescriptor pd (''@every '' @ dtext) loc
           = Some (None, Some (FailedParseDuration (''@every '' @ dtext))))
   \<and> (descriptor \<notin> {''@yearly'', ''@annually'', ''@monthly'', ''@weekly'', ''@daily'',
          ''@midnight'', ''@hourly''} \<and> \<not> HasPrefix descriptor ''@every '' \<longrightarrow>
         parseDescriptor pd descriptor loc
           = Some (None, Some (UnrecognizedDescriptor descriptor)))"
proof (intro conjI allI impI)
  show "parseDescriptor pd ''@yearly'' loc = Some (Some (SpecSchedule
     \<lparr>second = single seconds, minute = single minutes, hour = single hours,
      dom = single doms, month = single months, dow = unconstrained dows,
      location = loc\<rparr>), None)"
    by (rule parseDescriptor_yearly)
  show "parseDescriptor pd ''@annually'' loc = parseDescriptor pd ''@yearly'' loc"
    by (simp only: parseDescriptor_annually parseDescriptor_yearly)
  show "parseDescriptor pd ''@monthly'' loc = Some (Some (SpecSchedule
     \<lparr>second = single seconds, minute = single minutes, hour = single hours,
      dom = single doms, month = unconstrained months, dow = unconstrained dows,
      location = loc\<rparr>), None)"
    by (rule parseDescriptor_monthly)
  show "parseDescriptor pd ''@weekly'' loc = Some (Some (SpecSchedule
     \<lparr>second = single seconds, minute = single minutes, hour = single hours,
      dom = unconstrained doms, month = unconstrained months, dow = single dows,
      location = loc\<rparr>), None)"
    by (rule parseDescriptor_weekly)
  show "parseDescriptor pd ''@daily'' loc = Some (Some (SpecSchedule
     \<lparr>second = single seconds, minute = single minutes, hour = single hours,
      dom = unconstrained doms, month = unconstrained months, dow = unconstrained dows,
      location = loc\<rparr>), None)"
    by (rule parseDescriptor_daily)
  show "parseDescriptor pd ''@midnight'' loc = parseDescriptor pd ''@daily'' loc"
    by (simp only: parseDescriptor_midnight parseDescriptor_daily)
  show "parseDescriptor pd ''@hourly'' loc = Some (Some (SpecSchedule
     \<lparr>second = single seconds, minute = single minutes, hour = unconstrained hours,
      dom = unconstrained doms, month = unconstrained months, dow = unconstrained dows,
      location = loc\<rparr>), None)"
    by (rule parseDescriptor_hourly)
  show "parseDescriptor pd (''@every '' @ dtext) loc
      = Some (Some (EverySchedule (every d)), None)" if "pd dtext = Some d" for d
    using that by (simp only: parseDescriptor_every option.case)
  show "parseDescriptor pd (''@every '' @ dtext) loc
      = Some (None, Some (FailedParseDuration (''@every '' @ dtext)))" if "pd dtext = None"
    using that by (simp only: parseDescriptor_every option.case)
  show "parseDescriptor pd descriptor loc = Some (None, Some (UnrecognizedDescriptor descriptor))"
    if "descriptor \<notin> {''@yearly'', ''@annually'', ''@monthly'', ''@weekly'', ''@daily'',
          ''@midnight'', ''@hourly''} \<and> \<not> HasPrefix descriptor ''@every ''"
    using that by (intro parseDescriptor_other) simp_all
qed

theorem descriptor_resolution_witness:
  "parseDescriptor parseOnly5m ''@every 5m'' ()
     = Some (Some (EverySchedule (every (300 * Second))), None)
   \<and> parseDescriptor parseOnly5m ''@every Xm'' ()
     = Some (None, Some (FailedParseDuration ''@every Xm''))
   \<and> parseDescriptor parseOnly5m ''@bogus'' ()
     = Some (None, Some (UnrecognizedDescriptor ''@bogus''))"
  using
    descriptor_resolution [where pd = parseOnly5m
      and dtext = "''5m''" and descriptor = "''@bogus''" and loc = "()"]
    descriptor_resolution [where pd = parseOnly5m
      and dtext = "''Xm''" and descriptor = "''@bogus''" and loc = "()"]
  by (simp add: HasPrefix_def parseOnly5m_def)

section \<open>The descriptor \<open>@every 5m\<close>\<close>

lemma sint_300_Second: "sint (300 * Second) = 300000000000"
  by (simp add: Second_def)

lemma Next_every_5m:
  assumes "representable t" and "representable (t + 300000000000 - t mod 1000000000)"
  shows "Next (every (300 * Second)) t = t + 300000000000 - t mod 1000000000"
proof -
  have d: "sint (delay (every (300 * Second))) = 300000000000"
    by (simp add: every_delay sint_300_Second)
  from Next_every [of t "300 * Second"] assms show ?thesis
    by (simp add: d)
qed

lemma Parse_every_5m:
  "pd ''5m'' = Some (300 * Second) \<Longrightarrow>
   ParseWithLocation pd ''@every 5m'' loc
     = Some (Some (EverySchedule (every (300 * Second))), None)"
  using parseDescriptor_every [of pd "''5m''" loc]
  by (simp add: ParseWithLocation_def HasPrefix_def)

lemma atClock_mod:
  assumes "0 \<le> ns" and "ns < 1000000000"
  shows "atClock day h m s ns mod 1000000000 = ns"
proof -
  have "atClock day h m s ns mod 1000000000 = ns mod 1000000000"
    unfolding atClock_def by (rule mod_mult_self3)
  then show ?thesis
    using assms by simp
qed

text \<open>
  C2, as the code has it. For the interval schedule compiled from \<open>@every 5m\<close> (the
  duration parser reading \<open>5m\<close> as five minutes), \<open>Next\<close> on the reference instant
  12:03:27, with any nanoseconds below the second, returns 12:08:27 and not 12:08:00: the
  stored delay of 300 s is added after zeroing the nanoseconds below the second only.
  The next call returns 12:13:27: the calls stay on the phase fixed by the first call's
  rounding, not on minute boundaries of the wall clock. The day is any day on which
  \<open>time.Time\<close> can hold these instants.
\<close>

theorem every_5m_Next:
  assumes "pd ''5m'' = Some (300 * Second)" and "0 \<le> ns" and "ns < 1000000000"
    and "representable (atClock day 12 3 27 ns)" and "representable (atClock day 12 13 27 0)"
  shows "ParseWithLocation pd ''@every 5m'' loc
           = Some (Some (EverySchedule (every (300 * Second))), None)
       \<and> sint (delay (every (300 * Second))) = 300 * 1000000000
       \<and> Next (every (300 * Second)) (atClock day 12 3 27 ns) = atClock day 12 8 27 0
       \<and> Next (every (300 * Second)) (Next (every (300 * Second)) (atClock day 12 3 27 ns))
           = atClock day 12 13 27 0
       \<and> (\<forall>t. representable t \<and> Time_Nanosecond t = 0 \<and> representable (t + 300000000000)
              \<longrightarrow> Next (every (300 * Second)) t = t + 300000000000)"
proof (intro conjI allI impI)
  show "ParseWithLocation pd ''@every 5m'' loc
      = Some (Some (EverySchedule (every (300 * Second))), None)"
    using assms(1) by (rule Parse_every_5m)
  show "sint (delay (every (300 * Second))) = 300 * 1000000000"
    by (simp add: every_delay sint_300_Second)
  have mid: "representable (atClock day 12 8 27 0)"
    by (rule representable_between [OF assms(4,5)])
      (use assms(2,3) in \<open>simp_all add: atClock_def\<close>)
  have e1: "atClock day 12 3 27 ns + 300000000000 - atClock day 12 3 27 ns mod 1000000000
      = atClock day 12 8 27 0"
    unfolding atClock_mod [OF assms(2,3)] by (simp add: atClock_def)
  have e2: "atClock day 12 8 27 0 + 300000000000 - atClock day 12 8 27 0 mod 1000000000
      = atClock day 12 13 27 0"
    by (simp add: atClock_mod) (simp add: atClock_def)
  show first: "Next (every (300 * Second)) (atClock day 12 3 27 ns) = atClock day 12 8 27 0"
    using Next_every_5m [OF assms(4)] mid by (simp add: e1)
  show "Next (every (300 * Second)) (Next (every (300 * Second)) (atClock day 12 3 27 ns))
      = atClock day 12 13 27 0"
    unfolding first using Next_every_5m [OF mid] assms(5) by (simp add: e2)
  show "Next (every (300 * Second)) t = t + 300000000000"
    if "representable t \<and> Time_Nanosecond t = 0 \<and> representable (t + 300000000000)" for t
    using that Next_every_5m [of t] by (simp add: Time_Nanosecond_def)
qed

theorem every_5m_Next_witness:
  "ParseWithLocation parseOnly5m ''@every 5m'' ()
     = Some (Some (EverySchedule (every (300 * Second))), None)
   \<and> sint (delay (every (300 * Second))) = 300 * 1000000000
   \<and> Next (every (300 * Second)) (atClock 0 12 3 27 500) = atClock 0 12 8 27 0
   \<and> Next (every (300 * Second)) (Next (every (300 * Second)) (atClock 0 12 3 27 500))
       = atClock 0 12 13 27 0
   \<and> Next (every (300 * Second)) (atClock 0 12 13 27 0)
       = atClock 0 12 13 27 0 + 300000000000"
proof -
  have h: "parseOnly5m ''5m'' = Some (300 * Second)" "(0::int) \<le> 500" "(500::int) < 1000000000"
      "representable (atClock 0 12 3 27 500)" "representable (atClock 0 12 13 27 0)"
    by (simp_all add: parseOnly5m_def representable_def atClock_def)
  note th = every_5m_Next [where pd = parseOnly5m and ns = 500 and day = 0 and loc = "()",
      OF h]
  have "representable (atClock 0 12 13 27 0) \<and> Time_Nanosecond (atClock 0 12 13 27 0) = 0
      \<and> representable (atClock 0 12 13 27 0 + 300000000000)"
    by (simp add: representable_def atClock_def Time_Nanosecond_def)
  with th have "Next (every (300 * Second)) (atClock 0 12 13 27 0)
      = atClock 0 12 13 27 0 + 300000000000"
    by blast
  with th show ?thesis by blast
qed

theorem every_5m_Next_counterexample:
  "ParseWithLocation parseOnly5m ''@every 5m'' ()
     = Some (Some (EverySchedule (every (300 * Second))), None)
   \<and> Next (every (300 * Second)) (atClock 0 12 3 27 0) = atClock 0 12 8 27 0
   \<and> Next (every (300 * Second)) (atClock 0 12 3 27 0) \<noteq> atClock 0 12 8 0 0"
proof (intro conjI)
  show "ParseWithLocation parseOnly5m ''@every 5m'' ()
     = Some (Some (EverySchedule (every (300 * Second))), None)"
    by (rule Parse_every_5m) (simp add: parseOnly5m_def)
  have n: "Next (every (300 * Second)) (atClock 0 12 3 27 0) = atClock 0 12 8 27 0"
    using Next_every_5m [of "atClock 0 12 3 27 0"]
    by (simp add: atClock_def representable_def)
  show "Next (every (300 * Second)) (atClock 0 12 3 27 0) = atClock 0 12 8 27 0"
    by (rule n)
  show "Next (every (300 * Second)) (atClock 0 12 3 27 0) \<noteq> atClock 0 12 8 0 0"
    unfolding n by (simp add: atClock_def)
qed

section \<open>Splitting\<close>

lemma splitWhen_not_Nil [simp]: "splitWhen p s \<noteq> []"
  by (induction s) (auto split: list.splits)

lemma splitWhen_none: "\<forall>c \<in> set s. \<not> p c \<Longrightarrow> splitWhen p s = [s]"
  by (induction s) auto

lemma splitWhen_append:
  "\<forall>c \<in> set a. \<not> p c \<Longrightarrow> p x \<Longrightarrow> splitWhen p (a @ x # b) = a # splitWhen p b"
  by (induction a) auto

lemma Split_none: "sep \<notin> set s \<Longrightarrow> Split s sep = [s]"
  unfolding Split_def by (rule splitWhen_none) auto

lemma Split_append: "sep \<notin> set a \<Longrightarrow> Split (a @ sep # b) sep = a # Split b sep"
  unfolding Split_def by (rule splitWhen_append) auto

lemma Split_not_Nil [simp]: "Split s sep \<noteq> []"
  by (simp add: Split_def)

section \<open>Numbers\<close>

lemma mustParseInt_bound:
  assumes "mustParseInt s = (n, None)"
  shows "unat n < 2 ^ 63"
proof -
  from assms obtain k where k: "Atoi s = Some k" "0 \<le> k" "n = word_of_int k"
    by (auto simp add: mustParseInt_def split: option.splits if_splits)
  from k(1) have "k < 2 ^ 63"
    by (auto simp add: Atoi_def Let_def split: prod.splits if_splits)
  with k(2) have "uint (word_of_int k :: uint) = k"
    by (simp add: uint_word_of_int)
  then have "unat n = nat k"
    by (simp add: k(3) unat_eq_nat_uint)
  with \<open>k < 2 ^ 63\<close> k(2) show ?thesis
    by (simp add: nat_less_iff)
qed

section \<open>The ranges that compile\<close>

lemma getRange_ends_extra:
  assumes "getRange_ends lowAndHigh expr r = Inr (start, end', extra)"
  shows "extra = 0 \<or> extra = starBit"
  using assms unfolding getRange_ends_def
  by (auto split: if_splits prod.splits option.splits)

lemma getRange_step_ok:
  assumes "getRange_step rangeAndStep singleDigit expr r end0 extra0 = Inr (step, end', extra)"
  shows "unat step < 2 ^ 63 \<and> (extra = 0 \<or> extra = extra0)"
  using assms mustParseInt_bound unfolding getRange_step_def
  by (auto split: if_splits prod.splits option.splits)

text \<open>
  What a successful \<open>getRange\<close> has done: it has run \<open>getBits\<close> on a range inside the
  bounds with a step that is not 0, and added the wildcard marker or nothing.
\<close>

lemma getRange_ok:
  assumes "getRange expr r = Some (b, None)"
  obtains start end' step extra bits
  where "min' r \<le> start" and "start \<le> end'" and "end' \<le> max' r"
    and "step \<noteq> 0" and "unat step < 2 ^ 63"
    and "extra = 0 \<or> extra = starBit"
    and "getBits start end' step = Some bits" and "b = bits OR extra"
proof -
  define rangeAndStep where "rangeAndStep = Split expr CHR ''/''"
  define lowAndHigh where "lowAndHigh = Split (rangeAndStep ! 0) CHR ''-''"
  from assms obtain start end0 extra0
    where ends: "getRange_ends lowAndHigh expr r = Inr (start, end0, extra0)"
    unfolding getRange_def Let_def rangeAndStep_def [symmetric] lowAndHigh_def [symmetric]
    by (auto split: sum.splits)
  from assms ends obtain step end' extra
    where stp: "getRange_step rangeAndStep (length lowAndHigh = 1) expr r end0 extra0
                  = Inr (step, end', extra)"
    unfolding getRange_def Let_def rangeAndStep_def [symmetric] lowAndHigh_def [symmetric]
    by (auto split: sum.splits)
  from assms ends stp obtain bits
    where chk: "\<not> start < min' r" "\<not> max' r < end'" "\<not> end' < start" "step \<noteq> 0"
      and bits: "getBits start end' step = Some bits" "b = bits OR extra"
    unfolding getRange_def Let_def rangeAndStep_def [symmetric] lowAndHigh_def [symmetric]
    by (auto split: if_splits)
  from getRange_ends_extra [OF ends] getRange_step_ok [OF stp]
  have "unat step < 2 ^ 63" "extra = 0 \<or> extra = starBit" by auto
  with chk bits show ?thesis
    by (intro that [of start end' step extra bits]) (simp_all add: not_less)
qed

lemma bit_starBit: "bit starBit j \<longleftrightarrow> j = 63"
  unfolding starBit_def bit_push_bit_iff bit_1_iff by auto

text \<open>
  Inside bounds whose maximum is below the wildcard marker, the value bits of a compiled
  range lie inside the bounds, and the bit of the start of the range is one of them.
\<close>

lemma getRange_value_bits:
  assumes "getRange expr r = Some (b, None)" and "unat (max' r) < 63"
  shows "\<forall>j. bit b j \<longrightarrow> j = 63 \<or> (unat (min' r) \<le> j \<and> j \<le> unat (max' r))"
    and "\<exists>j. j < 63 \<and> bit b j"
proof -
  from assms(1) obtain start end' step extra bits
    where lo: "min' r \<le> start" and se: "start \<le> end'" and hi: "end' \<le> max' r"
      and step: "step \<noteq> 0" "unat step < 2 ^ 63"
      and extra: "extra = 0 \<or> extra = starBit"
      and bits: "getBits start end' step = Some bits" and b: "b = bits OR extra"
    by (rule getRange_ok)
  from lo se hi have n: "unat (min' r) \<le> unat start" "unat start \<le> unat end'"
      "unat end' \<le> unat (max' r)"
    by (simp_all add: word_le_nat_alt)
  with assms(2) step(2) have "unat end' + unat step < 2 ^ 64" by simp
  from getBits_bits [OF step(1) this, of start] bits
  have bb: "bit bits j \<longleftrightarrow>
      j < 64 \<and> unat start \<le> j \<and> j \<le> unat end' \<and> unat step dvd (j - unat start)" for j
    by auto
  show "\<forall>j. bit b j \<longrightarrow> j = 63 \<or> (unat (min' r) \<le> j \<and> j \<le> unat (max' r))"
    using extra n by (auto simp add: b bit_or_iff bb bit_starBit)
  have "bit b (unat start)"
    using n assms(2) by (simp add: b bit_or_iff bb)
  moreover have "unat start < 63" using n assms(2) by simp
  ultimately show "\<exists>j. j < 63 \<and> bit b j" by blast
qed

text \<open>\<open>getRange\<close> returns, for bounds whose maximum fits an \<open>int\<close>.\<close>

lemma getRange_returns:
  assumes "unat (max' r) < 2 ^ 63"
  shows "\<exists>res. getRange expr r = Some res"
proof -
  define rangeAndStep where "rangeAndStep = Split expr CHR ''/''"
  define lowAndHigh where "lowAndHigh = Split (rangeAndStep ! 0) CHR ''-''"
  show ?thesis
  proof (cases "getRange_ends lowAndHigh expr r")
    case (Inl err)
    then show ?thesis
      unfolding getRange_def Let_def rangeAndStep_def [symmetric] lowAndHigh_def [symmetric]
      by simp
  next
    case (Inr t)
    obtain start end0 extra0 where t: "t = (start, end0, extra0)" by (cases t)
    show ?thesis
    proof (cases "getRange_step rangeAndStep (length lowAndHigh = 1) expr r end0 extra0")
      case (Inl err)
      then show ?thesis
        using Inr t
        unfolding getRange_def Let_def rangeAndStep_def [symmetric] lowAndHigh_def [symmetric]
        by simp
    next
      case (Inr u)
      obtain step end' extra where u: "u = (step, end', extra)" by (cases u)
      have s: "unat step < 2 ^ 63"
        using getRange_step_ok [OF Inr [unfolded u]] by simp
      have g: "\<exists>m. getBits start end' step = Some m" if "step \<noteq> 0" "\<not> max' r < end'"
      proof -
        from that(2) have "unat end' \<le> unat (max' r)" by (simp add: word_le_nat_alt not_less)
        with assms s have "unat end' + unat step < 2 ^ 64" by simp
        from getBits_bits [OF that(1) this, of start] show ?thesis by blast
      qed
      show ?thesis
        using \<open>getRange_ends lowAndHigh expr r = Inr t\<close> t Inr u g
        unfolding getRange_def Let_def rangeAndStep_def [symmetric] lowAndHigh_def [symmetric]
        by auto
    qed
  qed
qed

section \<open>Fields and expressions\<close>

lemma getField_loop_bits:
  assumes "getField_loop ranges r acc = Some (b, None)" and "unat (max' r) < 63"
    and "\<forall>j. bit acc j \<longrightarrow> j = 63 \<or> (unat (min' r) \<le> j \<and> j \<le> unat (max' r))"
  shows "(\<forall>j. bit b j \<longrightarrow> j = 63 \<or> (unat (min' r) \<le> j \<and> j \<le> unat (max' r)))
       \<and> (ranges \<noteq> [] \<or> (\<exists>j. j < 63 \<and> bit acc j) \<longrightarrow> (\<exists>j. j < 63 \<and> bit b j))"
  using assms
proof (induction ranges arbitrary: acc)
  case Nil
  then show ?case by simp
next
  case (Cons expr ranges)
  from Cons.prems(1) obtain bit' where g: "getRange expr r = Some (bit', None)"
    and l: "getField_loop ranges r (acc OR bit') = Some (b, None)"
    by (auto split: option.splits prod.splits)
  note vb = getRange_value_bits [OF g Cons.prems(2)]
  have inv: "\<forall>j. bit (acc OR bit') j \<longrightarrow> j = 63 \<or> (unat (min' r) \<le> j \<and> j \<le> unat (max' r))"
    using vb(1) Cons.prems(3) by (auto simp add: bit_or_iff)
  have ne: "\<exists>j. j < 63 \<and> bit (acc OR bit') j"
    using vb(2) by (auto simp add: bit_or_iff)
  from Cons.IH [OF l Cons.prems(2) inv] ne show ?case by blast
qed

text \<open>
  A field that compiles has its value bits inside its bounds; it has a value bit when its
  text has a range, that is a byte other than the comma.
\<close>

lemma FieldsFunc_not_Nil:
  assumes "\<exists>c \<in> set s. \<not> p c"
  shows "FieldsFunc s p \<noteq> []"
proof -
  have "\<exists>w \<in> set (splitWhen p s). w \<noteq> []"
    using assms
  proof (induction s)
    case Nil
    then show ?case by simp
  next
    case (Cons c cs)
    then show ?case
      by (cases "splitWhen p cs") auto
  qed
  then show ?thesis
    by (auto simp add: FieldsFunc_def filter_empty_conv)
qed

lemma FieldsFunc_all_sep:
  assumes "\<forall>c \<in> set s. p c"
  shows "FieldsFunc s p = []"
proof -
  have "\<forall>w \<in> set (splitWhen p s). w = []"
    using assms by (induction s) auto
  then show ?thesis
    by (auto simp add: FieldsFunc_def filter_empty_conv)
qed

lemma getField_bits:
  assumes "getField fld r = Some (b, None)" and "unat (max' r) < 63"
  shows "\<forall>j. bit b j \<longrightarrow> j = 63 \<or> (unat (min' r) \<le> j \<and> j \<le> unat (max' r))"
    and "\<exists>c \<in> set fld. c \<noteq> CHR '','' \<Longrightarrow> \<exists>j. j < 63 \<and> bit b j"
proof -
  note l = getField_loop_bits [OF assms(1) [unfolded getField_def] assms(2)]
  show "\<forall>j. bit b j \<longrightarrow> j = 63 \<or> (unat (min' r) \<le> j \<and> j \<le> unat (max' r))"
    using l by simp
  show "\<exists>j. j < 63 \<and> bit b j" if "\<exists>c \<in> set fld. c \<noteq> CHR '',''"
    using l FieldsFunc_not_Nil [of fld "\<lambda>r. r = CHR '',''"] that by simp
qed

lemma getField_only_commas:
  assumes "\<forall>c \<in> set fld. c = CHR '',''"
  shows "getField fld r = Some (0, None)"
  using FieldsFunc_all_sep [of fld "\<lambda>r. r = CHR '',''"] assms
  by (simp add: getField_def)

lemma getField_loop_returns:
  assumes "unat (max' r) < 2 ^ 63"
  shows "\<exists>res. getField_loop ranges r acc = Some res"
proof (induction ranges arbitrary: acc)
  case Nil
  then show ?case by simp
next
  case (Cons expr ranges)
  from getRange_returns [OF assms, of expr] obtain bit' e
    where "getRange expr r = Some (bit', e)" by auto
  with Cons.IH [of "acc OR bit'"] show ?case
    by (cases e) auto
qed

lemma getField_returns:
  "unat (max' r) < 2 ^ 63 \<Longrightarrow> \<exists>b e. getField fld r = Some (b, e)"
  using getField_loop_returns [of r] by (simp add: getField_def)

lemma registry_max:
  "unat (max' seconds) = 59" "unat (max' minutes) = 59" "unat (max' hours) = 23"
  "unat (max' doms) = 31" "unat (max' months) = 12" "unat (max' dows) = 6"
  by (simp_all add: seconds_def minutes_def hours_def doms_def months_def dows_def)

lemma registry_min:
  "unat (min' seconds) = 0" "unat (min' minutes) = 0" "unat (min' hours) = 0"
  "unat (min' doms) = 1" "unat (min' months) = 1" "unat (min' dows) = 0"
  by (simp_all add: seconds_def minutes_def hours_def doms_def months_def dows_def)

text \<open>The closure \<open>field\<close>: it compiles nothing once an error is set.\<close>

lemma field_after_error: "field (Some e) fld r = Some (0, Some e)"
  by (simp add: field_def)

lemma field_no_error: "field None fld r = getField fld r"
  by (simp add: field_def)

lemma field_Some_None:
  assumes "field err fld r = Some (b, None)"
  shows "err = None \<and> getField fld r = Some (b, None)"
  using assms by (cases err) (simp_all add: field_def)

text \<open>An expression that compiles to a spec-schedule through its six fields.\<close>

lemma Parse_fields_ok:
  assumes "ParseWithLocation pd spec loc = Some (Some sch, None)" and "\<not> HasPrefix spec ''@''"
  obtains f0 f1 f2 f3 f4 f5 s
  where "Fields spec = [f0, f1, f2, f3, f4, f5]" and "sch = SpecSchedule s"
    and "getField f0 seconds = Some (second s, None)"
    and "getField f1 minutes = Some (minute s, None)"
    and "getField f2 hours = Some (hour s, None)"
    and "getField f3 doms = Some (dom s, None)"
    and "getField f4 months = Some (month s, None)"
    and "getField f5 dows = Some (dow s, None)"
proof -
  define fs where "fs = Fields spec"
  from assms have len: "length fs = 6"
    by (auto simp add: ParseWithLocation_def Let_def fs_def split: if_splits)
  then obtain f0 f1 f2 f3 f4 f5 where fs: "fs = [f0, f1, f2, f3, f4, f5]"
    by (auto simp add: length_Suc_conv eval_nat_numeral)
  from assms len obtain b0 e0 b1 e1 b2 e2 b3 e3 b4 e4 b5
    where c: "field None f0 seconds = Some (b0, e0)" "field e0 f1 minutes = Some (b1, e1)"
      "field e1 f2 hours = Some (b2, e2)" "field e2 f3 doms = Some (b3, e3)"
      "field e3 f4 months = Some (b4, e4)" "field e4 f5 dows = Some (b5, None)"
    and sch: "sch = SpecSchedule \<lparr>second = b0, minute = b1, hour = b2, dom = b3,
        month = b4, dow = b5, location = loc\<rparr>"
    unfolding ParseWithLocation_def Let_def fs_def [symmetric] fs
    by (auto simp add: bind_eq_Some_conv split: if_splits)
  from field_Some_None [OF c(6)] have e4: "e4 = None" and g5: "getField f5 dows = Some (b5, None)"
    by simp_all
  from field_Some_None [OF c(5) [unfolded e4]]
  have e3: "e3 = None" and g4: "getField f4 months = Some (b4, None)" by simp_all
  from field_Some_None [OF c(4) [unfolded e3]]
  have e2: "e2 = None" and g3: "getField f3 doms = Some (b3, None)" by simp_all
  from field_Some_None [OF c(3) [unfolded e2]]
  have e1: "e1 = None" and g2: "getField f2 hours = Some (b2, None)" by simp_all
  from field_Some_None [OF c(2) [unfolded e1]]
  have e0: "e0 = None" and g1: "getField f1 minutes = Some (b1, None)" by simp_all
  from field_Some_None [OF c(1) [unfolded e0]]
  have g0: "getField f0 seconds = Some (b0, None)" by simp
  show ?thesis
    by (rule that [OF fs [unfolded fs_def] sch]) (simp_all add: g0 g1 g2 g3 g4 g5)
qed

section \<open>The invariant of a spec-schedule\<close>

lemma bit_single: "bit (single r) j \<longleftrightarrow> j < 64 \<and> j = unat (min' r)"
  unfolding single_def bit_push_bit_iff bit_1_iff by auto

lemma bit_unconstrained:
  "bit (unconstrained r) j \<longleftrightarrow> (j < 64 \<and> unat (min' r) \<le> j \<and> j \<le> unat (max' r)) \<or> j = 63"
  unfolding unconstrained_def bit_or_iff bit_fold_set_bits bit_starBit by auto

lemma single_ok:
  assumes "unat (min' r) \<le> unat (max' r)" and "unat (max' r) < 63"
  shows "inBounds r (single r)" and "hasValue (single r)"
  using assms by (auto simp add: inBounds_def hasValue_def bit_single)

lemma unconstrained_ok:
  assumes "unat (min' r) \<le> unat (max' r)" and "unat (max' r) < 63"
  shows "inBounds r (unconstrained r)" and "hasValue (unconstrained r)"
proof -
  show "inBounds r (unconstrained r)"
    by (auto simp add: inBounds_def bit_unconstrained)
  have "unat (min' r) < 63 \<and> bit (unconstrained r) (unat (min' r))"
    using assms by (simp add: bit_unconstrained)
  then show "hasValue (unconstrained r)"
    unfolding hasValue_def by blast
qed

lemmas registry_ok =
  single_ok [of seconds] single_ok [of minutes] single_ok [of hours]
  single_ok [of doms] single_ok [of months] single_ok [of dows]
  unconstrained_ok [of seconds] unconstrained_ok [of minutes] unconstrained_ok [of hours]
  unconstrained_ok [of doms] unconstrained_ok [of months] unconstrained_ok [of dows]

lemma parseDescriptor_every_prefix:
  "d \<notin> {''@yearly'', ''@annually'', ''@monthly'', ''@weekly'', ''@daily'',
     ''@midnight'', ''@hourly''} \<Longrightarrow> HasPrefix d ''@every '' \<Longrightarrow>
   parseDescriptor pd d loc =
     (case pd (drop (length ''@every '') d) of
        None \<Rightarrow> Some (None, Some (FailedParseDuration d))
      | Some du \<Rightarrow> Some (Some (EverySchedule (every du)), None))"
  by (simp add: parseDescriptor_def)

lemma parseDescriptor_masks:
  assumes "parseDescriptor pd d loc = Some (Some (SpecSchedule s), None)"
  shows "list_all2 inBounds fieldBounds (masks s) \<and> list_all hasValue (masks s)"
proof -
  have "d = ''@yearly'' \<or> d = ''@annually'' \<or> d = ''@monthly'' \<or> d = ''@weekly''
      \<or> d = ''@daily'' \<or> d = ''@midnight'' \<or> d = ''@hourly''"
  proof (rule ccontr)
    assume "\<not> ?thesis"
    then have n: "d \<notin> {''@yearly'', ''@annually'', ''@monthly'', ''@weekly'', ''@daily'',
        ''@midnight'', ''@hourly''}"
      by (simp only: insert_iff empty_iff de_Morgan_disj simp_thms)
    show False
    proof (cases "HasPrefix d ''@every ''")
      case True
      from assms show False
        unfolding parseDescriptor_every_prefix [OF n True]
        by (simp split: option.splits)
    next
      case False
      from assms show False
        unfolding parseDescriptor_other [OF n False] by simp
    qed
  qed
  then show ?thesis
  proof (elim disjE)
    assume "d = ''@yearly''"
    with assms have "s = \<lparr>second = single seconds, minute = single minutes,
        hour = single hours, dom = single doms, month = single months,
        dow = unconstrained dows, location = loc\<rparr>"
      by (simp only: parseDescriptor_yearly option.inject prod.inject Schedule.inject)
    then show ?thesis
      by (simp add: masks_def fieldBounds_def registry_ok registry_min registry_max)
  next
    assume "d = ''@annually''"
    with assms have "s = \<lparr>second = single seconds, minute = single minutes,
        hour = single hours, dom = single doms, month = single months,
        dow = unconstrained dows, location = loc\<rparr>"
      by (simp only: parseDescriptor_annually option.inject prod.inject Schedule.inject)
    then show ?thesis
      by (simp add: masks_def fieldBounds_def registry_ok registry_min registry_max)
  next
    assume "d = ''@monthly''"
    with assms have "s = \<lparr>second = single seconds, minute = single minutes,
        hour = single hours, dom = single doms, month = unconstrained months,
        dow = unconstrained dows, location = loc\<rparr>"
      by (simp only: parseDescriptor_monthly option.inject prod.inject Schedule.inject)
    then show ?thesis
      by (simp add: masks_def fieldBounds_def registry_ok registry_min registry_max)
  next
    assume "d = ''@weekly''"
    with assms have "s = \<lparr>second = single seconds, minute = single minutes,
        hour = single hours, dom = unconstrained doms, month = unconstrained months,
        dow = single dows, location = loc\<rparr>"
      by (simp only: parseDescriptor_weekly option.inject prod.inject Schedule.inject)
    then show ?thesis
      by (simp add: masks_def fieldBounds_def registry_ok registry_min registry_max)
  next
    assume "d = ''@daily''"
    with assms have "s = \<lparr>second = single seconds, minute = single minutes,
        hour = single hours, dom = unconstrained doms, month = unconstrained months,
        dow = unconstrained dows, location = loc\<rparr>"
      by (simp only: parseDescriptor_daily option.inject prod.inject Schedule.inject)
    then show ?thesis
      by (simp add: masks_def fieldBounds_def registry_ok registry_min registry_max)
  next
    assume "d = ''@midnight''"
    with assms have "s = \<lparr>second = single seconds, minute = single minutes,
        hour = single hours, dom = unconstrained doms, month = unconstrained months,
        dow = unconstrained dows, location = loc\<rparr>"
      by (simp only: parseDescriptor_midnight option.inject prod.inject Schedule.inject)
    then show ?thesis
      by (simp add: masks_def fieldBounds_def registry_ok registry_min registry_max)
  next
    assume "d = ''@hourly''"
    with assms have "s = \<lparr>second = single seconds, minute = single minutes,
        hour = unconstrained hours, dom = unconstrained doms, month = unconstrained months,
        dow = unconstrained dows, location = loc\<rparr>"
      by (simp only: parseDescriptor_hourly option.inject prod.inject Schedule.inject)
    then show ?thesis
      by (simp add: masks_def fieldBounds_def registry_ok registry_min registry_max)
  qed
qed

lemma getField_inBounds:
  assumes "getField fld r = Some (b, None)" and "unat (max' r) < 63"
  shows "inBounds r b"
  using getField_bits(1) [OF assms] by (auto simp add: inBounds_def)

lemma getField_hasValue:
  assumes "getField fld r = Some (b, None)" and "unat (max' r) < 63"
    and "\<exists>c \<in> set fld. c \<noteq> CHR '',''"
  shows "hasValue b"
  using getField_bits(2) [OF assms] by (simp add: hasValue_def)

lemma hasValue_0: "\<not> hasValue 0"
  by (simp add: hasValue_def)

lemma getField_hasValue_only_if:
  assumes "getField fld r = Some (b, None)" and "hasValue b"
  shows "\<exists>c \<in> set fld. c \<noteq> CHR '',''"
proof (rule ccontr)
  assume "\<not> ?thesis"
  then have "getField fld r = Some (0, None)"
    by (intro getField_only_commas) simp
  with assms show False
    by (simp add: hasValue_0)
qed

text \<open>
  C1, as the code has it. For every expression text and time zone for which
  \<open>ParseWithLocation\<close> returns a spec-schedule without error, every value bit set in each
  of the six masks (the wildcard-marker bit aside) lies within the bounds of its field;
  and each of the six masks has a value bit set exactly when the text is a descriptor or
  each of its fields has a byte other than the comma. A field made of commas only has no
  range: it compiles to the empty mask without an error.
\<close>

theorem spec_schedule_invariant:
  assumes "ParseWithLocation pd spec loc = Some (Some (SpecSchedule s), None)"
  shows "list_all2 inBounds fieldBounds (masks s)
       \<and> (list_all hasValue (masks s) \<longleftrightarrow>
            HasPrefix spec ''@''
            \<or> list_all (\<lambda>fld. \<exists>c \<in> set fld. c \<noteq> CHR '','') (Fields spec))
       \<and> (\<forall>fld r. (\<forall>c \<in> set fld. c = CHR '','') \<longrightarrow> getField fld r = Some (0, None))"
proof -
  have "list_all2 inBounds fieldBounds (masks s)
       \<and> (list_all hasValue (masks s) \<longleftrightarrow>
            HasPrefix spec ''@''
            \<or> list_all (\<lambda>fld. \<exists>c \<in> set fld. c \<noteq> CHR '','') (Fields spec))"
  proof (cases "HasPrefix spec ''@''")
    case True
    with assms have "parseDescriptor pd spec loc = Some (Some (SpecSchedule s), None)"
      by (simp add: ParseWithLocation_def split: if_splits)
    from parseDescriptor_masks [OF this] True show ?thesis by simp
  next
    case False
    from assms False obtain f0 f1 f2 f3 f4 f5 s'
      where fs: "Fields spec = [f0, f1, f2, f3, f4, f5]" and s': "SpecSchedule s = SpecSchedule s'"
        and g: "getField f0 seconds = Some (second s', None)"
          "getField f1 minutes = Some (minute s', None)"
          "getField f2 hours = Some (hour s', None)"
          "getField f3 doms = Some (dom s', None)"
          "getField f4 months = Some (month s', None)"
          "getField f5 dows = Some (dow s', None)"
      by (rule Parse_fields_ok)
    from s' have [simp]: "s' = s" by simp
    have "list_all2 inBounds fieldBounds (masks s)"
      using g by (simp add: masks_def fieldBounds_def getField_inBounds registry_max)
    moreover have "list_all hasValue (masks s)"
      if "list_all (\<lambda>fld. \<exists>c \<in> set fld. c \<noteq> CHR '','') (Fields spec)"
      using that g unfolding fs
      by (simp add: masks_def getField_hasValue registry_max)
    moreover have "list_all (\<lambda>fld. \<exists>c \<in> set fld. c \<noteq> CHR '','') (Fields spec)"
      if "list_all hasValue (masks s)"
      using that g getField_hasValue_only_if unfolding fs masks_def
      by (simp del: ex_simps bex_simps)
    ultimately show ?thesis using False by blast
  qed
  moreover have "\<forall>fld r. (\<forall>c \<in> set fld. c = CHR '','') \<longrightarrow> getField fld r = Some (0, None)"
    by (simp add: getField_only_commas)
  ultimately show ?thesis by blast
qed

section \<open>Wildcards and steps\<close>

text \<open>\<open>getRange\<close> past its two parts, when the four checks pass.\<close>

lemma getRange_eval:
  assumes "Split expr CHR ''/'' = rangeAndStep"
    and "Split (rangeAndStep ! 0) CHR ''-'' = lowAndHigh"
    and "getRange_ends lowAndHigh expr r = Inr (start, end0, extra0)"
    and "getRange_step rangeAndStep (length lowAndHigh = 1) expr r end0 extra0
           = Inr (step, end', extra)"
    and "min' r \<le> start" and "end' \<le> max' r" and "start \<le> end'" and "step \<noteq> 0"
  shows "getRange expr r = map_option (\<lambda>bits. (bits OR extra, None)) (getBits start end' step)"
  using assms by (simp add: getRange_def Let_def not_less [symmetric])

lemma getRange_ends_wildcard:
  "lowAndHigh ! 0 = ''*'' \<or> lowAndHigh ! 0 = ''?'' \<Longrightarrow>
   getRange_ends lowAndHigh expr r = Inr (min' r, max' r, starBit)"
  by (simp add: getRange_ends_def)

lemma getRange_step_none:
  "getRange_step [pre] singleDigit expr r end' extra = Inr (1, end', extra)"
  by (simp add: getRange_step_def)

lemma getRange_step_some:
  "mustParseInt ts = (step, None) \<Longrightarrow>
   getRange_step [pre, ts] singleDigit expr r end' extra
     = Inr (step, if singleDigit then max' r else end', if 1 < step then 0 else extra)"
  by (simp add: getRange_step_def)

text \<open>A wildcard atom with no step, whatever follows the wildcard up to the end.\<close>

lemma getRange_wildcard:
  assumes "CHR ''/'' \<notin> set expr"
    and "Split expr CHR ''-'' ! 0 = ''*'' \<or> Split expr CHR ''-'' ! 0 = ''?''"
    and "min' r \<le> max' r"
  shows "getRange expr r = map_option (\<lambda>m. (m, None)) (allBits r)"
proof -
  have "getRange expr r
      = map_option (\<lambda>bits. (bits OR starBit, None)) (getBits (min' r) (max' r) 1)"
  proof (rule getRange_eval)
    show "Split expr CHR ''/'' = [expr]"
      using assms(1) by (rule Split_none)
    show "Split ([expr] ! 0) CHR ''-'' = Split expr CHR ''-''" by simp
    show "getRange_ends (Split expr CHR ''-'') expr r = Inr (min' r, max' r, starBit)"
      using assms(2) by (rule getRange_ends_wildcard)
    show "getRange_step [expr] (length (Split expr CHR ''-'') = 1) expr r (max' r) starBit
        = Inr (1, max' r, starBit)"
      by (rule getRange_step_none)
  qed (use assms(3) in simp_all)
  then show ?thesis
    by (simp add: allBits_def option.map_comp comp_def)
qed







lemma Atoi_no_slash:
  assumes "Atoi s = Some k"
  shows "CHR ''/'' \<notin> set s"
proof
  assume in_s: "CHR ''/'' \<in> set s"
  have nd: "\<not> isDigit CHR ''/''" by (simp add: isDigit_def)
  show False
  proof (cases s)
    case Nil
    with in_s show False by simp
  next
    case (Cons c cs)
    show False
    proof (cases "c = CHR ''-'' \<or> c = CHR ''+''")
      case True
      with assms Cons have "list_all isDigit cs"
        by (auto simp add: Atoi_def Let_def split: if_splits)
      with in_s Cons True nd show False
        by (auto simp add: list_all_iff)
    next
      case False
      with assms Cons have "list_all isDigit s"
        by (auto simp add: Atoi_def Let_def split: if_splits)
      with in_s nd show False
        by (auto simp add: list_all_iff)
    qed
  qed
qed

lemma mustParseInt_no_slash:
  assumes "mustParseInt ts = (step, None)"
  shows "CHR ''/'' \<notin> set ts"
  using assms Atoi_no_slash [of ts]
  by (auto simp add: mustParseInt_def split: option.splits if_splits)

text \<open>The set of the bits of a mask that \<open>getBits\<close> returns.\<close>

lemma getBits_set:
  fixes mn mx step :: uint
  assumes "step \<noteq> 0" and "unat step < 2 ^ 63" and "unat mx \<le> 63"
  obtains m where "getBits mn mx step = Some m"
    and "{j. bit m j} = {j. unat mn \<le> j \<and> j \<le> unat mx \<and> unat step dvd (j - unat mn)}"
proof -
  from assms(2,3) have "unat mx + unat step < 2 ^ 64" by simp
  from getBits_bits [OF assms(1) this, of mn] obtain m
    where m: "getBits mn mx step = Some m"
      and b: "\<And>j. bit m j \<longleftrightarrow>
        j < 64 \<and> unat mn \<le> j \<and> j \<le> unat mx \<and> unat step dvd (j - unat mn)"
    by blast
  have "{j. bit m j} = {j. unat mn \<le> j \<and> j \<le> unat mx \<and> unat step dvd (j - unat mn)}"
    using assms(3) by (auto simp add: b)
  with m show ?thesis by (rule that)
qed

text \<open>The wildcard with a step: \<open>*/step\<close>.\<close>

lemma getRange_wildcard_step:
  assumes "mustParseInt ts = (step, None)" and "step \<noteq> 0" and "min' r \<le> max' r"
  shows "getRange (''*/'' @ ts) r
       = map_option (\<lambda>bits. (bits OR (if 1 < step then 0 else starBit), None))
           (getBits (min' r) (max' r) step)"
proof (rule getRange_eval)
  show "Split (''*/'' @ ts) CHR ''/'' = [''*'', ts]"
    using Split_append [of "CHR ''/''" "''*''" ts] mustParseInt_no_slash [OF assms(1)]
    by (simp add: Split_none)
  show "Split ([''*'', ts] ! 0) CHR ''-'' = [''*'']"
    by (simp add: Split_def)
  show "getRange_ends [''*''] (''*/'' @ ts) r = Inr (min' r, max' r, starBit)"
    by (rule getRange_ends_wildcard) simp
  show "getRange_step [''*'', ts] (length [''*''] = 1) (''*/'' @ ts) r (max' r) starBit
      = Inr (step, max' r, if 1 < step then 0 else starBit)"
    using getRange_step_some [OF assms(1), of "''*''" True "''*/'' @ ts" r "max' r" starBit]
    by simp
qed (use assms in simp_all)

lemma mustParseInt_1: "mustParseInt ''1'' = (1, None)"
  by (simp add: mustParseInt_def Atoi_def isDigit_def)

text \<open>
  C3, as the code has it. For every bounds that fit the 64 bits of the mask
  (\<open>min \<le> max \<le> 63\<close>): compiling \<open>*\<close> or \<open>?\<close> yields the mask with exactly the bits
  \<open>min..max\<close> and the wildcard-marker bit 63; compiling \<open>*/step\<close>, for a step text that reads
  as a number above 1, yields exactly the bits \<open>min, min + step, min + 2 * step, ...\<close> up
  to \<open>max\<close>, and the wildcard-marker bit is cleared when the values lie below it
  (\<open>max \<le> 62\<close>); compiling \<open>*/1\<close> keeps the wildcard-marker bit.
\<close>

theorem wildcard_masks:
  assumes "min' r \<le> max' r" and "unat (max' r) \<le> 63"
  shows "(\<exists>m. getRange ''*'' r = Some (m, None) \<and> getRange ''?'' r = Some (m, None)
            \<and> {j. bit m j} = {unat (min' r) .. unat (max' r)} \<union> {63})
       \<and> (mustParseInt ts = (step, None) \<and> 1 < step \<longrightarrow>
            (\<exists>m. getRange (''*/'' @ ts) r = Some (m, None)
               \<and> {j. bit m j}
                 = {j. unat (min' r) \<le> j \<and> j \<le> unat (max' r)
                      \<and> unat step dvd (j - unat (min' r))}
               \<and> (unat (max' r) \<le> 62 \<longrightarrow> \<not> bit m 63)))
       \<and> (\<exists>m. getRange ''*/1'' r = Some (m, None)
            \<and> {j. bit m j} = {unat (min' r) .. unat (max' r)} \<union> {63})"
proof (intro conjI impI)
  have ne: "max' r \<noteq> - 1"
  proof
    assume "max' r = - 1"
    then have "unat (max' r) = 2 ^ 64 - 1"
      by (simp add: unsigned_minus_1_eq_mask mask_eq_exp_minus_1)
    with assms(2) show False by simp
  qed
  have full: "{j. bit (unconstrained r) j} = {unat (min' r) .. unat (max' r)} \<union> {63}"
    using assms(2) by (auto simp add: bit_unconstrained)
  have star: "getRange ''*'' r = Some (unconstrained r, None)"
    using getRange_wildcard [of "''*''" r] assms(1)
    by (simp add: Split_def allBits_unconstrained [OF ne])
  have quest: "getRange ''?'' r = Some (unconstrained r, None)"
    using getRange_wildcard [of "''?''" r] assms(1)
    by (simp add: Split_def allBits_unconstrained [OF ne])
  show "\<exists>m. getRange ''*'' r = Some (m, None) \<and> getRange ''?'' r = Some (m, None)
          \<and> {j. bit m j} = {unat (min' r) .. unat (max' r)} \<union> {63}"
    using star quest full by blast
  have "getRange (''*/'' @ ''1'') r
      = map_option (\<lambda>bits. (bits OR (if (1 :: uint) < 1 then 0 else starBit), None))
          (getBits (min' r) (max' r) 1)"
    by (rule getRange_wildcard_step [OF mustParseInt_1 _ assms(1)]) simp
  then have one: "getRange ''*/1'' r = Some (unconstrained r, None)"
    using allBits_unconstrained [OF ne] by (auto simp add: allBits_def)
  then show "\<exists>m. getRange ''*/1'' r = Some (m, None)
          \<and> {j. bit m j} = {unat (min' r) .. unat (max' r)} \<union> {63}"
    using full by simp
  show "\<exists>m. getRange (''*/'' @ ts) r = Some (m, None)
          \<and> {j. bit m j}
            = {j. unat (min' r) \<le> j \<and> j \<le> unat (max' r)
                 \<and> unat step dvd (j - unat (min' r))}
          \<and> (unat (max' r) \<le> 62 \<longrightarrow> \<not> bit m 63)"
    if h: "mustParseInt ts = (step, None) \<and> 1 < step"
  proof -
    from h have st: "mustParseInt ts = (step, None)" and gt: "1 < step" by simp_all
    from gt have nz: "step \<noteq> 0" by auto
    from getBits_set [OF nz mustParseInt_bound [OF st] assms(2), of "min' r"] obtain m
      where m: "getBits (min' r) (max' r) step = Some m"
        and s: "{j. bit m j}
          = {j. unat (min' r) \<le> j \<and> j \<le> unat (max' r)
               \<and> unat step dvd (j - unat (min' r))}"
      by blast
    have "getRange (''*/'' @ ts) r = Some (m, None)"
      unfolding getRange_wildcard_step [OF st nz assms(1)] using m gt by simp
    moreover have "\<not> bit m 63" if "unat (max' r) \<le> 62"
    proof
      assume "bit m 63"
      then have "63 \<in> {j. bit m j}" by simp
      with s that show False by simp
    qed
    ultimately show ?thesis using s by blast
  qed
qed

theorem wildcard_masks_witness:
  "(\<exists>m. getRange ''*'' \<lparr>min' = 1, max' = 3, names = None\<rparr> = Some (m, None)
        \<and> getRange ''?'' \<lparr>min' = 1, max' = 3, names = None\<rparr> = Some (m, None)
        \<and> {j. bit m j} = {1 .. 3} \<union> {63})
   \<and> (\<exists>m. getRange ''*/2'' \<lparr>min' = 1, max' = 3, names = None\<rparr> = Some (m, None)
        \<and> {j. bit m j} = {j. 1 \<le> j \<and> j \<le> 3 \<and> 2 dvd (j - 1)}
        \<and> \<not> bit m 63)
   \<and> (\<exists>m. getRange ''*/1'' \<lparr>min' = 1, max' = 3, names = None\<rparr> = Some (m, None)
        \<and> {j. bit m j} = {1 .. 3} \<union> {63})"
proof -
  have p: "mustParseInt ''2'' = (2, None)"
    by (simp add: mustParseInt_def Atoi_def isDigit_def)
  show ?thesis
    using wildcard_masks [of "\<lparr>min' = 1, max' = 3, names = None\<rparr>" "''2''" 2] p
    by simp
qed

theorem wildcard_masks_counterexample:
  "getRange ''*/2'' \<lparr>min' = 1, max' = 63, names = None\<rparr> = Some (0xAAAAAAAAAAAAAAAA, None)
   \<and> bit (0xAAAAAAAAAAAAAAAA :: uint64) 63
   \<and> getRange ''*'' \<lparr>min' = 0, max' = 64, names = None\<rparr> = Some (- 1, None)
   \<and> \<not> bit (- 1 :: uint64) 64"
proof (intro conjI)
  show "getRange ''*/2'' \<lparr>min' = 1, max' = 63, names = None\<rparr>
      = Some (0xAAAAAAAAAAAAAAAA, None)"
    by code_simp
  show "bit (0xAAAAAAAAAAAAAAAA :: uint64) 63"
    by code_simp
  show "getRange ''*'' \<lparr>min' = 0, max' = 64, names = None\<rparr> = Some (- 1, None)"
    by code_simp
  show "\<not> bit (- 1 :: uint64) 64"
    by (simp add: bit_simps)
qed

section \<open>The first field error\<close>

lemma Fields_Nil: "Fields [] = []"
  by (simp add: Fields_def)

text \<open>\<open>ParseWithLocation\<close> on a text of six fields that is not a descriptor.\<close>

lemma Parse_six:
  assumes "\<not> HasPrefix spec ''@''" and "Fields spec = [f0, f1, f2, f3, f4, f5]"
  shows "ParseWithLocation pd spec loc =
     Option.bind (field None f0 seconds) (\<lambda>(second', err).
     Option.bind (field err f1 minutes) (\<lambda>(minute', err).
     Option.bind (field err f2 hours) (\<lambda>(hour', err).
     Option.bind (field err f3 doms) (\<lambda>(dom', err).
     Option.bind (field err f4 months) (\<lambda>(month', err).
     Option.bind (field err f5 dows) (\<lambda>(dow', err).
       if err \<noteq> None then Some (None, err)
       else Some (Some (SpecSchedule
         \<lparr>second = second', minute = minute', hour = hour', dom = dom',
          month = month', dow = dow', location = loc\<rparr>), None)))))))"
proof -
  have "spec \<noteq> []"
    using assms(2) by (auto simp add: Fields_Nil)
  then show ?thesis
    using assms by (simp add: ParseWithLocation_def)
qed

lemma six_fields:
  assumes "length fs = 6"
  obtains f0 f1 f2 f3 f4 f5 where "fs = [f0, f1, f2, f3, f4, f5]"
  using assms by (auto simp add: length_Suc_conv eval_nat_numeral)

text \<open>
  C6. For every expression text of six fields (not a descriptor) in which some field
  fails to compile, \<open>ParseWithLocation\<close> returns the error of the first failing field in
  the order second, minute, hour, day-of-month, month, day-of-week, together with the nil
  schedule (\<open>None\<close>), never a schedule. The fields after the failing one are not compiled:
  nothing is assumed of them, and the closure \<open>field\<close> returns at once when the error is
  set.
\<close>

theorem first_field_error:
  assumes "\<not> HasPrefix spec ''@''" and "length (Fields spec) = 6" and "k < 6"
    and "\<forall>i<k. \<exists>b'. getField (Fields spec ! i) (fieldBounds ! i) = Some (b', None)"
    and "getField (Fields spec ! k) (fieldBounds ! k) = Some (b, Some e)"
  shows "ParseWithLocation pd spec loc = Some (None, Some e)
       \<and> (\<forall>fld r. field (Some e) fld r = Some (0, Some e))"
proof
  show "\<forall>fld r. field (Some e) fld r = Some (0, Some e)"
    by (simp add: field_after_error)
  from assms(2) obtain f0 f1 f2 f3 f4 f5 where fs: "Fields spec = [f0, f1, f2, f3, f4, f5]"
    by (rule six_fields)
  note p = Parse_six [OF assms(1) fs, of pd loc]
  note ok = assms(4) [rule_format, unfolded fs fieldBounds_def]
  note bad = assms(5) [unfolded fs fieldBounds_def]
  from assms(3) consider "k = 0" | "k = 1" | "k = 2" | "k = 3" | "k = 4" | "k = 5"
    by linarith
  then show "ParseWithLocation pd spec loc = Some (None, Some e)"
  proof cases
    case 1
    with bad show ?thesis
      unfolding p by (simp add: field_def)
  next
    case 2
    with ok [of 0] bad show ?thesis
      unfolding p by (auto simp add: field_def)
  next
    case 3
    with ok [of 0] ok [of 1] bad show ?thesis
      unfolding p by (auto simp add: field_def)
  next
    case 4
    with ok [of 0] ok [of 1] ok [of 2] bad show ?thesis
      unfolding p by (auto simp add: field_def)
  next
    case 5
    with ok [of 0] ok [of 1] ok [of 2] ok [of 3] bad show ?thesis
      unfolding p by (auto simp add: field_def)
  next
    case 6
    with ok [of 0] ok [of 1] ok [of 2] ok [of 3] ok [of 4] bad show ?thesis
      unfolding p by (auto simp add: field_def)
  qed
qed

text \<open>Some fields, compiled.\<close>

lemma getField_star:
  assumes "min' r \<le> max' r" and "max' r \<noteq> - 1"
  shows "getField ''*'' r = Some (unconstrained r, None)"
proof -
  have "getRange ''*'' r = Some (unconstrained r, None)"
    using getRange_wildcard [of "''*''" r] assms(1)
    by (simp add: Split_def allBits_unconstrained [OF assms(2)])
  then show ?thesis
    by (simp add: getField_def FieldsFunc_def)
qed

lemma getField_star_registry:
  "getField ''*'' seconds = Some (unconstrained seconds, None)"
  "getField ''*'' minutes = Some (unconstrained minutes, None)"
  "getField ''*'' hours = Some (unconstrained hours, None)"
  "getField ''*'' doms = Some (unconstrained doms, None)"
  "getField ''*'' months = Some (unconstrained months, None)"
  "getField ''*'' dows = Some (unconstrained dows, None)"
  by (rule getField_star; simp add: seconds_def minutes_def hours_def doms_def months_def
      dows_def)+

lemma getField_0_seconds: "getField ''0'' seconds = Some (1, None)"
  by code_simp

lemma getField_5_minutes: "getField ''5'' minutes = Some (32, None)"
  by code_simp

lemma getField_j_hours: "getField ''j'' hours = Some (0, Some (FailedParseInt ''j''))"
  by code_simp

lemma Fields_star_5_j: "Fields ''* 5 j * * *'' = [''*'', ''5'', ''j'', ''*'', ''*'', ''*'']"
  by (simp add: Fields_def spaceWidth_def spaceRunes_def)

lemma Fields_0_5: "Fields ''0 5 * * * *'' = [''0'', ''5'', ''*'', ''*'', ''*'', ''*'']"
  by (simp add: Fields_def spaceWidth_def spaceRunes_def)

lemma Fields_comma: "Fields '', * * * * *'' = ['','', ''*'', ''*'', ''*'', ''*'', ''*'']"
  by (simp add: Fields_def spaceWidth_def spaceRunes_def)

theorem first_field_error_witness:
  "ParseWithLocation parseNothing ''* 5 j * * *'' () = Some (None, Some (FailedParseInt ''j''))
   \<and> field (Some (FailedParseInt ''j'')) ''*'' doms = Some (0, Some (FailedParseInt ''j''))"
proof -
  have h1: "\<not> HasPrefix ''* 5 j * * *'' ''@''"
    by (simp add: HasPrefix_def)
  have h2: "length (Fields ''* 5 j * * *'') = 6"
    by (simp add: Fields_star_5_j)
  have h3: "(2 :: nat) < 6" by simp
  have h4: "\<forall>i<2. \<exists>b'. getField (Fields ''* 5 j * * *'' ! i) (fieldBounds ! i) = Some (b', None)"
  proof (intro allI impI)
    fix i :: nat
    assume "i < 2"
    then consider "i = 0" | "i = 1" by linarith
    then show "\<exists>b'. getField (Fields ''* 5 j * * *'' ! i) (fieldBounds ! i) = Some (b', None)"
      by cases
        (simp_all add: Fields_star_5_j fieldBounds_def getField_star_registry getField_5_minutes)
  qed
  have h5: "getField (Fields ''* 5 j * * *'' ! 2) (fieldBounds ! 2)
      = Some (0, Some (FailedParseInt ''j''))"
    by (simp add: Fields_star_5_j fieldBounds_def getField_j_hours)
  from first_field_error [OF h1 h2 h3 h4 h5, of parseNothing "()"] show ?thesis
    by simp
qed

section \<open>The invariant on examples\<close>

lemma Parse_0_5:
  "ParseWithLocation parseNothing ''0 5 * * * *'' () = Some (Some (SpecSchedule
     \<lparr>second = 1, minute = 32, hour = unconstrained hours, dom = unconstrained doms,
      month = unconstrained months, dow = unconstrained dows, location = ()\<rparr>), None)"
proof -
  have "\<not> HasPrefix ''0 5 * * * *'' ''@''"
    by (simp add: HasPrefix_def)
  from Parse_six [OF this Fields_0_5, of parseNothing "()"] show ?thesis
    by (simp add: field_def getField_0_seconds getField_5_minutes getField_star_registry)
qed

theorem spec_schedule_invariant_witness:
  "list_all2 inBounds fieldBounds
     (masks \<lparr>second = 1, minute = 32, hour = unconstrained hours, dom = unconstrained doms,
       month = unconstrained months, dow = unconstrained dows, location = ()\<rparr>)
   \<and> list_all hasValue
     (masks \<lparr>second = 1, minute = 32, hour = unconstrained hours, dom = unconstrained doms,
       month = unconstrained months, dow = unconstrained dows, location = ()\<rparr>)
   \<and> getField '','' seconds = Some (0, None)"
  using spec_schedule_invariant [OF Parse_0_5]
  by (simp add: Fields_0_5)

theorem spec_schedule_invariant_counterexample:
  "ParseWithLocation parseNothing '', * * * * *'' () = Some (Some (SpecSchedule
     \<lparr>second = 0, minute = unconstrained minutes, hour = unconstrained hours,
      dom = unconstrained doms, month = unconstrained months, dow = unconstrained dows,
      location = ()\<rparr>), None)
   \<and> \<not> hasValue 0"
proof
  have "\<not> HasPrefix '', * * * * *'' ''@''"
    by (simp add: HasPrefix_def)
  from Parse_six [OF this Fields_comma, of parseNothing "()"]
  show "ParseWithLocation parseNothing '', * * * * *'' () = Some (Some (SpecSchedule
     \<lparr>second = 0, minute = unconstrained minutes, hour = unconstrained hours,
      dom = unconstrained doms, month = unconstrained months, dow = unconstrained dows,
      location = ()\<rparr>), None)"
    by (simp add: field_def getField_only_commas getField_star_registry)
  show "\<not> hasValue 0"
    by (simp add: hasValue_def)
qed

section \<open>Ranges with a step\<close>

lemma getRange_ends_pair:
  assumes "parseIntOrName tlo (names r) = (lo, None)"
    and "parseIntOrName thi (names r) = (hi, None)"
    and "tlo \<noteq> ''*''" and "tlo \<noteq> ''?''"
  shows "getRange_ends [tlo, thi] expr r = Inr (lo, hi, 0)"
  using assms by (simp add: getRange_ends_def)

lemma getRange_ends_one:
  assumes "parseIntOrName tlo (names r) = (lo, None)"
    and "tlo \<noteq> ''*''" and "tlo \<noteq> ''?''"
  shows "getRange_ends [tlo] expr r = Inr (lo, lo, 0)"
  using assms by (simp add: getRange_ends_def)

text \<open>The range \<open>lo-hi/step\<close>, the atoms given as texts.\<close>

lemma getRange_range_step:
  assumes lo: "parseIntOrName tlo (names r) = (lo, None)"
    and hi: "parseIntOrName thi (names r) = (hi, None)"
    and st: "mustParseInt ts = (step, None)" and nz: "step \<noteq> 0"
    and atoms: "tlo \<noteq> ''*''" "tlo \<noteq> ''?''"
      "CHR ''-'' \<notin> set tlo" "CHR ''-'' \<notin> set thi"
      "CHR ''/'' \<notin> set tlo" "CHR ''/'' \<notin> set thi"
    and rng: "min' r \<le> lo" "lo \<le> hi" "hi \<le> max' r"
  shows "getRange (tlo @ ''-'' @ thi @ ''/'' @ ts) r
       = map_option (\<lambda>bits. (bits, None)) (getBits lo hi step)"
proof -
  have "getRange (tlo @ ''-'' @ thi @ ''/'' @ ts) r
      = map_option (\<lambda>bits. (bits OR 0, None)) (getBits lo hi step)"
  proof (rule getRange_eval)
    have "Split ((tlo @ ''-'' @ thi) @ CHR ''/'' # ts) CHR ''/''
        = (tlo @ ''-'' @ thi) # Split ts CHR ''/''"
      using atoms by (intro Split_append) simp
    then show "Split (tlo @ ''-'' @ thi @ ''/'' @ ts) CHR ''/'' = [tlo @ ''-'' @ thi, ts]"
      using mustParseInt_no_slash [OF st] by (simp add: Split_none)
    have "Split (tlo @ CHR ''-'' # thi) CHR ''-'' = tlo # Split thi CHR ''-''"
      using atoms by (intro Split_append) simp
    then show "Split ([tlo @ ''-'' @ thi, ts] ! 0) CHR ''-'' = [tlo, thi]"
      using atoms by (simp add: Split_none)
    show "getRange_ends [tlo, thi] (tlo @ ''-'' @ thi @ ''/'' @ ts) r = Inr (lo, hi, 0)"
      using lo hi atoms(1,2) by (rule getRange_ends_pair)
    show "getRange_step [tlo @ ''-'' @ thi, ts] (length [tlo, thi] = 1)
        (tlo @ ''-'' @ thi @ ''/'' @ ts) r hi 0 = Inr (step, hi, 0)"
      using getRange_step_some [OF st] by simp
  qed (use nz rng in simp_all)
  then show ?thesis by simp
qed

text \<open>The single atom with a step, \<open>N/step\<close>: the range runs to the maximum of the bounds.\<close>

lemma getRange_single_step:
  assumes lo: "parseIntOrName tlo (names r) = (lo, None)"
    and st: "mustParseInt ts = (step, None)" and nz: "step \<noteq> 0"
    and atoms: "tlo \<noteq> ''*''" "tlo \<noteq> ''?''" "CHR ''-'' \<notin> set tlo" "CHR ''/'' \<notin> set tlo"
    and rng: "min' r \<le> lo" "lo \<le> max' r"
  shows "getRange (tlo @ ''/'' @ ts) r
       = map_option (\<lambda>bits. (bits, None)) (getBits lo (max' r) step)"
proof -
  have "getRange (tlo @ ''/'' @ ts) r
      = map_option (\<lambda>bits. (bits OR 0, None)) (getBits lo (max' r) step)"
  proof (rule getRange_eval)
    have "Split (tlo @ CHR ''/'' # ts) CHR ''/'' = tlo # Split ts CHR ''/''"
      using atoms by (intro Split_append) simp
    then show "Split (tlo @ ''/'' @ ts) CHR ''/'' = [tlo, ts]"
      using mustParseInt_no_slash [OF st] by (simp add: Split_none)
    show "Split ([tlo, ts] ! 0) CHR ''-'' = [tlo]"
      using atoms by (simp add: Split_none)
    show "getRange_ends [tlo] (tlo @ ''/'' @ ts) r = Inr (lo, lo, 0)"
      using lo atoms(1,2) by (rule getRange_ends_one)
    show "getRange_step [tlo, ts] (length [tlo] = 1) (tlo @ ''/'' @ ts) r lo 0
        = Inr (step, max' r, 0)"
      using getRange_step_some [OF st] by simp
  qed (use nz rng in simp_all)
  then show ?thesis by simp
qed

text \<open>
  C4, as the code has it. Let the atoms \<open>lo\<close> and \<open>hi\<close> be texts (without \<open>-\<close> and \<open>/\<close>, \<open>lo\<close>
  not a wildcard) that read as the numbers \<open>lo\<close> and \<open>hi\<close>, by name or as integers, and the
  step a text that reads as a number \<open>step \<ge> 1\<close>. If \<open>min \<le> lo \<le> hi \<le> max\<close> and \<open>hi \<le> 63\<close>, the
  highest bit of the mask, then compiling \<open>lo-hi/step\<close> yields a mask whose set bits are
  exactly \<open>lo, lo + step, lo + 2 * step, ...\<close> up to \<open>hi\<close>, which for step 1 is the closed
  interval from \<open>lo\<close> to \<open>hi\<close>. And when \<open>hi\<close> is the maximum of the bounds, the single atom
  with a step, \<open>lo/step\<close>, compiles to what \<open>lo-hi/step\<close> compiles to: every \<open>step\<close>-th value
  from \<open>lo\<close> through the maximum.
\<close>

theorem range_step_masks:
  assumes "parseIntOrName tlo (names r) = (lo, None)"
    and "parseIntOrName thi (names r) = (hi, None)"
    and "mustParseInt ts = (step, None)" and "1 \<le> step"
    and "tlo \<noteq> ''*''" and "tlo \<noteq> ''?''"
    and "CHR ''-'' \<notin> set tlo \<union> set thi" and "CHR ''/'' \<notin> set tlo \<union> set thi"
    and "min' r \<le> lo" and "lo \<le> hi" and "hi \<le> max' r" and "unat hi \<le> 63"
  shows "(\<exists>m. getRange (tlo @ ''-'' @ thi @ ''/'' @ ts) r = Some (m, None)
            \<and> {j. bit m j} = {j. unat lo \<le> j \<and> j \<le> unat hi \<and> unat step dvd (j - unat lo)}
            \<and> (step = 1 \<longrightarrow> {j. bit m j} = {unat lo .. unat hi}))
       \<and> (hi = max' r \<longrightarrow>
            getRange (tlo @ ''/'' @ ts) r = getRange (tlo @ ''-'' @ thi @ ''/'' @ ts) r)"
proof (intro conjI impI)
  from assms(4) have nz: "step \<noteq> 0" by auto
  from assms(7,8) have atoms: "CHR ''-'' \<notin> set tlo" "CHR ''-'' \<notin> set thi"
      "CHR ''/'' \<notin> set tlo" "CHR ''/'' \<notin> set thi"
    by simp_all
  note two = getRange_range_step [OF assms(1,2,3) nz assms(5,6) atoms assms(9,10,11)]
  from getBits_set [OF nz mustParseInt_bound [OF assms(3)] assms(12), of lo] obtain m
    where m: "getBits lo hi step = Some m"
      and s: "{j. bit m j} = {j. unat lo \<le> j \<and> j \<le> unat hi \<and> unat step dvd (j - unat lo)}"
    by blast
  have "step = 1 \<longrightarrow> {j. bit m j} = {unat lo .. unat hi}"
    unfolding s by auto
  then show "\<exists>m. getRange (tlo @ ''-'' @ thi @ ''/'' @ ts) r = Some (m, None)
      \<and> {j. bit m j} = {j. unat lo \<le> j \<and> j \<le> unat hi \<and> unat step dvd (j - unat lo)}
      \<and> (step = 1 \<longrightarrow> {j. bit m j} = {unat lo .. unat hi})"
    unfolding two using m s by simp
  show "getRange (tlo @ ''/'' @ ts) r = getRange (tlo @ ''-'' @ thi @ ''/'' @ ts) r"
    if "hi = max' r"
  proof -
    from that assms(10) have "lo \<le> max' r" by simp
    from getRange_single_step [OF assms(1,3) nz assms(5,6) atoms(1,3) assms(9) this]
    show ?thesis
      unfolding two that by simp
  qed
qed

theorem range_step_masks_witness:
  "(\<exists>m. getRange ''5-7/2'' \<lparr>min' = 0, max' = 7, names = None\<rparr> = Some (m, None)
        \<and> {j. bit m j} = {j. 5 \<le> j \<and> j \<le> 7 \<and> 2 dvd (j - 5)})
   \<and> getRange ''5/2'' \<lparr>min' = 0, max' = 7, names = None\<rparr>
     = getRange ''5-7/2'' \<lparr>min' = 0, max' = 7, names = None\<rparr>"
proof -
  have p: "parseIntOrName ''5'' None = (5, None)" "parseIntOrName ''7'' None = (7, None)"
      "mustParseInt ''2'' = (2, None)"
    by (simp_all add: parseIntOrName_def mustParseInt_def Atoi_def isDigit_def)
  show ?thesis
    using range_step_masks [of "''5''" "\<lparr>min' = 0, max' = 7, names = None\<rparr>" 5 "''7''" 7
        "''2''" 2] p
    by simp
qed

theorem range_step_masks_counterexample:
  "getRange ''64-64/1'' \<lparr>min' = 0, max' = 64, names = None\<rparr> = Some (0, None)"
  by code_simp

section \<open>The parser returns\<close>

text \<open>The masks that the package's test \<open>TestAll\<close> expects of \<open>allBits\<close>.\<close>

lemma allBits_test_values:
  "allBits minutes = Some (0xfffffffffffffff OR starBit)"
  "allBits hours = Some (0xffffff OR starBit)"
  "allBits doms = Some (0xfffffffe OR starBit)"
  "allBits months = Some (0x1ffe OR starBit)"
  "allBits dows = Some (0x7f OR starBit)"
  by (simp_all add: allBits_def getBits_def minutes_def hours_def doms_def months_def dows_def
      mask_eq_exp_minus_1)

lemma parseDescriptor_returns: "\<exists>res. parseDescriptor pd d loc = Some res"
  by (simp add: parseDescriptor_def allBits_registry split: option.splits)

text \<open>
  \<open>ParseWithLocation\<close> returns on every text: the loop of \<open>getBits\<close> ends for the six
  bounds of the fields.
\<close>

lemma field_returns:
  assumes "unat (max' r) < 2 ^ 63"
  shows "\<exists>b e. field err fld r = Some (b, e)"
  using getField_returns [OF assms, of fld] by (simp add: field_def)

lemma ParseWithLocation_returns: "\<exists>res. ParseWithLocation pd spec loc = Some res"
proof (cases "spec = [] \<or> HasPrefix spec ''@'' \<or> length (Fields spec) \<noteq> 6")
  case True
  then show ?thesis
    using parseDescriptor_returns [of pd spec loc]
    by (auto simp add: ParseWithLocation_def Let_def)
next
  case False
  then obtain f0 f1 f2 f3 f4 f5 where fs: "Fields spec = [f0, f1, f2, f3, f4, f5]"
    by (auto elim: six_fields)
  from False have "\<not> HasPrefix spec ''@''" by simp
  note p = Parse_six [OF this fs, of pd loc]
  have r: "unat (max' seconds) < 2 ^ 63" "unat (max' minutes) < 2 ^ 63"
      "unat (max' hours) < 2 ^ 63" "unat (max' doms) < 2 ^ 63"
      "unat (max' months) < 2 ^ 63" "unat (max' dows) < 2 ^ 63"
    by (simp_all add: registry_max)
  obtain b0 e0 where c0: "field None f0 seconds = Some (b0, e0)"
    using field_returns [OF r(1)] by blast
  obtain b1 e1 where c1: "field e0 f1 minutes = Some (b1, e1)"
    using field_returns [OF r(2)] by blast
  obtain b2 e2 where c2: "field e1 f2 hours = Some (b2, e2)"
    using field_returns [OF r(3)] by blast
  obtain b3 e3 where c3: "field e2 f3 doms = Some (b3, e3)"
    using field_returns [OF r(4)] by blast
  obtain b4 e4 where c4: "field e3 f4 months = Some (b4, e4)"
    using field_returns [OF r(5)] by blast
  obtain b5 e5 where c5: "field e4 f5 dows = Some (b5, e5)"
    using field_returns [OF r(6)] by blast
  show ?thesis
    unfolding p by (simp add: c0 c1 c2 c3 c4 c5)
qed

section \<open>The package's tests\<close>

text \<open>
  The cases of \<open>TestBits\<close>, of \<open>TestField\<close> and the cases of \<open>TestRange\<close> that compile, run
  on the embedding. The test bounds have no names.
\<close>

lemma TestBits:
  "getBits 0 0 1 = Some 0x1"
  "getBits 1 1 1 = Some 0x2"
  "getBits 1 5 2 = Some 0x2a"
  "getBits 1 4 2 = Some 0xa"
  by code_simp+

lemma TestRange:
  "getRange ''5'' \<lparr>min' = 0, max' = 7, names = None\<rparr> = Some (push_bit 5 1, None)"
  "getRange ''0'' \<lparr>min' = 0, max' = 7, names = None\<rparr> = Some (push_bit 0 1, None)"
  "getRange ''7'' \<lparr>min' = 0, max' = 7, names = None\<rparr> = Some (push_bit 7 1, None)"
  "getRange ''5-5'' \<lparr>min' = 0, max' = 7, names = None\<rparr> = Some (push_bit 5 1, None)"
  "getRange ''5-6'' \<lparr>min' = 0, max' = 7, names = None\<rparr>
     = Some (push_bit 5 1 OR push_bit 6 1, None)"
  "getRange ''5-7'' \<lparr>min' = 0, max' = 7, names = None\<rparr>
     = Some (push_bit 5 1 OR push_bit 6 1 OR push_bit 7 1, None)"
  "getRange ''5-6/2'' \<lparr>min' = 0, max' = 7, names = None\<rparr> = Some (push_bit 5 1, None)"
  "getRange ''5-7/2'' \<lparr>min' = 0, max' = 7, names = None\<rparr>
     = Some (push_bit 5 1 OR push_bit 7 1, None)"
  "getRange ''5-7/1'' \<lparr>min' = 0, max' = 7, names = None\<rparr>
     = Some (push_bit 5 1 OR push_bit 6 1 OR push_bit 7 1, None)"
  "getRange ''*'' \<lparr>min' = 1, max' = 3, names = None\<rparr>
     = Some (push_bit 1 1 OR push_bit 2 1 OR push_bit 3 1 OR starBit, None)"
  "getRange ''*/2'' \<lparr>min' = 1, max' = 3, names = None\<rparr>
     = Some (push_bit 1 1 OR push_bit 3 1, None)"
  by code_simp+

lemma TestRange_errors:
  "getRange ''jan-x'' \<lparr>min' = 0, max' = 0, names = None\<rparr>
     = Some (0, Some (FailedParseInt ''jan''))"
  "getRange ''2-x'' \<lparr>min' = 1, max' = 5, names = None\<rparr>
     = Some (0, Some (FailedParseInt ''x''))"
  "getRange ''5-3'' \<lparr>min' = 3, max' = 5, names = None\<rparr>
     = Some (0, Some (BeyondEnd 5 3 ''5-3''))"
  "getRange ''*/0'' \<lparr>min' = 0, max' = 0, names = None\<rparr>
     = Some (0, Some (StepNotPositive ''*/0''))"
  by code_simp+

lemma TestField:
  "getField ''5'' \<lparr>min' = 1, max' = 7, names = None\<rparr> = Some (push_bit 5 1, None)"
  "getField ''5,6'' \<lparr>min' = 1, max' = 7, names = None\<rparr>
     = Some (push_bit 5 1 OR push_bit 6 1, None)"
  "getField ''5,6,7'' \<lparr>min' = 1, max' = 7, names = None\<rparr>
     = Some (push_bit 5 1 OR push_bit 6 1 OR push_bit 7 1, None)"
  "getField ''1,5-7/2,3'' \<lparr>min' = 1, max' = 7, names = None\<rparr>
     = Some (push_bit 1 1 OR push_bit 5 1 OR push_bit 7 1 OR push_bit 3 1, None)"
  by code_simp+

end
